theory Spec2Isabelle
  imports Complex_Main "HOL-Library.Word" "HOL-Library.Log_Nat" "HOL-Library.Code_Target_Numeral"
begin

section \<open>The store: tables of \<^verbatim>\<open>server.js\<close>\<close>

text \<open>
  The three tables that \<^verbatim>\<open>initDB\<close> creates, with their columns (\<open>p_id\<close> is \<^verbatim>\<open>products.id\<close>,
  \<open>oi_order_id\<close> is \<^verbatim>\<open>order_items.order_id\<close>, and so on). A \<^verbatim>\<open>UUID\<close> is its 128-bit value,
  an \<^verbatim>\<open>INT\<close> column an integer, a \<^verbatim>\<open>DECIMAL(10,2)\<close> column an exact rational (the ranges
  of the column types are not part of the model). The stock of a row is never \<^verbatim>\<open>NULL\<close>:
  every statement of \<^verbatim>\<open>server.js\<close> that writes it writes an integer. A table is the list
  of its rows in insertion order.
\<close>

type_synonym uuid = "128 word"

record product =
  p_id :: uuid
  p_name :: string
  p_price :: rat
  p_stock :: int
  p_barcode :: "string option"

record order_row =
  o_id :: uuid
  o_total :: rat
  o_created_at :: nat
  o_pickup_code :: string

record order_item =
  oi_id :: uuid
  oi_order_id :: uuid
  oi_product_id :: uuid
  oi_quantity :: int

record database =
  products :: "product list"
  orders :: "order_row list"
  order_items :: "order_item list"

text \<open>
  What a request cannot determine itself: which of its data statements the store rejects
  (\<open>throws e k\<close>: the \<open>k\<close>-th awaited \<^verbatim>\<open>query\<close> of the request rejects, for whatever reason:
  a lost connection, a lock timeout, a value outside its column's range), the values of
  \<^verbatim>\<open>gen_random_uuid()\<close>, of \<^verbatim>\<open>Math.random()\<close> and of \<^verbatim>\<open>NOW()\<close>. Obtaining the connection
  and \<^verbatim>\<open>BEGIN\<close>, \<^verbatim>\<open>COMMIT\<close> and \<^verbatim>\<open>ROLLBACK\<close> are taken to succeed.
\<close>

record env =
  throws :: "nat \<Rightarrow> bool"
  gen_random_uuid :: "nat \<Rightarrow> uuid"
  math_random :: rat
  now :: nat

section \<open>Requests and responses\<close>

text \<open>
  An element of \<^verbatim>\<open>req.body.items\<close> is an object with a product id and a JSON number as
  quantity. The field itself may be missing or hold something that is not an array.
\<close>

record item =
  productId :: uuid
  quantity :: rat

datatype items_field = Undefined | Non_array | Array "item list"

record order_line =
  ol_productId :: uuid
  ol_quantity :: rat
  ol_name :: string
  ol_price :: rat

text \<open>
  The \<^verbatim>\<open>error\<close> strings of the handlers, with the interpolated values as arguments:
  \<^verbatim>\<open>Invalid items data provided.\<close>, \<^verbatim>\<open>Product not found: ${item.productId}\<close>,
  \<^verbatim>\<open>Insufficient stock for ${product.name}. Available: ${product.stock}, Requested: ${item.quantity}\<close>,
  \<^verbatim>\<open>Failed to create order\<close>, \<^verbatim>\<open>Product not found\<close>, \<^verbatim>\<open>Failed to fetch product\<close>.
\<close>

datatype error_message =
    Invalid_items_data_provided
  | Product_not_found_id uuid
  | Insufficient_stock_for string int rat
  | Failed_to_create_order
  | Product_not_found
  | Failed_to_fetch_product

text \<open>
  The text of a number: its digits, or, where JavaScript switches to exponent notation
  (\<^verbatim>\<open>toFixed\<close> from \<open>10\<^sup>2\<^sup>1\<close> on), the number itself, left unrendered.
\<close>

datatype number_text = Text string | Exponent_form rat

datatype body =
    Error error_message
  | Order_created uuid number_text string "order_line list"
  | Product_row product

record response =
  status :: nat
  json :: body

section \<open>JavaScript numbers\<close>

text \<open>
  A JavaScript number is an IEEE-754 double; here it is the rational that the double
  denotes. \<open>binary64 x\<close> is the double nearest to \<open>x\<close>: with \<open>2\<^sup>e \<le> \<bar>x\<bar> < 2\<^sup>e\<^sup>+\<^sup>1\<close> the doubles
  around \<open>x\<close> are the multiples of \<open>2\<^sup>e\<^sup>-\<^sup>5\<^sup>2\<close> (of \<open>2\<^sup>-\<^sup>1\<^sup>0\<^sup>7\<^sup>4\<close> below \<open>2\<^sup>-\<^sup>1\<^sup>0\<^sup>2\<^sup>2\<close>), and \<open>x\<close> goes to
  the nearest of them, to the one with the even multiplier on a tie. An arithmetic
  operation of JavaScript, and the reading of a decimal text by \<^verbatim>\<open>Number\<close>, yield \<open>binary64\<close>
  of the exact result. Two things are left out: a result of magnitude \<open>2\<^sup>1\<^sup>0\<^sup>2\<^sup>4\<close> or more,
  which JavaScript turns into \<^verbatim>\<open>Infinity\<close> (a total of that size needs a quantity that the
  \<^verbatim>\<open>INT\<close> columns reject), and the sign of zero (\<^verbatim>\<open>-0\<close> is zero here; \<^verbatim>\<open>toFixed\<close> prints both
  zeros alike).
\<close>

definition round_half_even :: "rat \<Rightarrow> int" where
  "round_half_even y =
     (let f = \<lfloor>y\<rfloor>; r = y - rat_of_int f
      in if r < 1 / 2 then f else if 1 / 2 < r then f + 1 else if even f then f else f + 1)"

text \<open>The \<open>e\<close> with \<open>2\<^sup>e \<le> y < 2\<^sup>e\<^sup>+\<^sup>1\<close>, for a positive \<open>y\<close>.\<close>

definition exponent :: "rat \<Rightarrow> int" where
  "exponent y =
     (if 1 \<le> y then int (floorlog 2 (nat \<lfloor>y\<rfloor>)) - 1
      else - int (floorlog 2 (nat (\<lceil>1 / y\<rceil> - 1))))"

definition binary64 :: "rat \<Rightarrow> rat" where
  "binary64 x =
     (if x = 0 then 0
      else
        let q = 2 powi (max (exponent \<bar>x\<bar>) (- 1022) - 52)
        in q * rat_of_int (round_half_even (x / q)))"

text \<open>
  The value of the text of a number (\<^verbatim>\<open>Number.prototype.toString\<close>, which the database driver
  applies to a number passed as a parameter): the decimal with the fewest significant
  digits that reads back as the same double, the nearest such one if there are several.
  \<open>decimal_exponent a\<close> is the \<open>n\<close> with \<open>10\<^sup>n\<^sup>-\<^sup>1 \<le> a < 10\<^sup>n\<close>; with \<open>k\<close> digits the candidates are
  the two multiples of \<open>10\<^sup>n\<^sup>-\<^sup>k\<close> around \<open>a\<close>. Seventeen digits always suffice.
\<close>

definition decimal_exponent :: "rat \<Rightarrow> int" where
  "decimal_exponent a =
     (if 1 \<le> a then int (floorlog 10 (nat \<lfloor>a\<rfloor>))
      else 1 - int (floorlog 10 (nat (\<lceil>1 / a\<rceil> - 1))))"

fun shortest_from :: "nat \<Rightarrow> nat \<Rightarrow> rat \<Rightarrow> rat" where
  "shortest_from 0 k a = a"
| "shortest_from (Suc n) k a =
     (let q = 10 powi (decimal_exponent a - int k);
          f = \<lfloor>a / q\<rfloor>;
          lo = rat_of_int f * q;
          hi = lo + q
      in if binary64 lo = a \<and>
            (binary64 hi \<noteq> a \<or> a - lo < hi - a \<or> (a - lo = hi - a \<and> even f))
         then lo
         else if binary64 hi = a then hi
         else shortest_from n (Suc k) a)"

definition shortest_decimal :: "rat \<Rightarrow> rat" where
  "shortest_decimal x =
     (if x = 0 then 0 else (if x < 0 then - 1 else 1) * shortest_from 17 1 \<bar>x\<bar>)"

section \<open>Numbers as text\<close>

definition digit_char :: "nat \<Rightarrow> char" where
  "digit_char d = ''0123456789'' ! d"

fun decimal :: "nat \<Rightarrow> string" where
  "decimal n = (if n < 10 then [digit_char n] else decimal (n div 10) @ [digit_char (n mod 10)])"

declare decimal.simps [simp del]

definition int_toString :: "int \<Rightarrow> string" where
  "int_toString i = (if i < 0 then ''-'' @ decimal (nat (- i)) else decimal (nat i))"

text \<open>
  \<^verbatim>\<open>Number.prototype.toFixed(2)\<close>, as ECMAScript defines it: the sign is split off, the
  magnitude is scaled by 100 and rounded to the nearest integer (the larger one on a tie),
  the digits are padded to three and the point goes before the last two. From \<open>10\<^sup>2\<^sup>1\<close>
  on the result is the exponent notation of \<^verbatim>\<open>toString\<close>.
\<close>

definition toFixed2 :: "rat \<Rightarrow> number_text" where
  "toFixed2 x =
     (if 10 ^ 21 \<le> \<bar>x\<bar> then Exponent_form x
      else
        let n = nat \<lfloor>\<bar>x\<bar> * 100 + 1 / 2\<rfloor>;
            m = decimal n;
            m' = replicate (3 - length m) (CHR ''0'') @ m;
            k = length m' - 2
        in Text ((if x < 0 then ''-'' else '''') @ take k m' @ ''.'' @ drop k m'))"

text \<open>A value stored in a \<^verbatim>\<open>DECIMAL(10,2)\<close> column is rounded to two places, ties away from zero.\<close>

definition round_2dp :: "rat \<Rightarrow> rat" where
  "round_2dp x = (if x < 0 then - 1 else 1) * rat_of_int \<lfloor>\<bar>x\<bar> * 100 + 1 / 2\<rfloor> / 100"

definition is_integer :: "rat \<Rightarrow> bool" where
  "is_integer q = (q = rat_of_int \<lfloor>q\<rfloor>)"

section \<open>The statements of \<^verbatim>\<open>POST /api/orders\<close>\<close>

text \<open>\<^verbatim>\<open>SELECT id, name, price, stock FROM products WHERE id = $1 FOR UPDATE\<close>\<close>

definition select_product_for_update :: "database \<Rightarrow> uuid \<Rightarrow> product list" where
  "select_product_for_update d pid = filter (\<lambda>p. p_id p = pid) (products d)"

text \<open>
  \<^verbatim>\<open>UPDATE products SET stock = stock - $1 WHERE id = $2\<close>. The parameter is subtracted from
  an \<^verbatim>\<open>INT\<close> column: the store rejects text that is not an integer.
\<close>

definition decrement :: "rat \<Rightarrow> uuid \<Rightarrow> product \<Rightarrow> product" where
  "decrement q pid p = (if p_id p = pid then p\<lparr>p_stock := p_stock p - \<lfloor>q\<rfloor>\<rparr> else p)"

definition update_stock :: "database \<Rightarrow> rat \<Rightarrow> uuid \<Rightarrow> database option" where
  "update_stock d q pid =
     (if is_integer q then Some (d\<lparr>products := map (decrement q pid) (products d)\<rparr>) else None)"

text \<open>
  \<^verbatim>\<open>INSERT INTO orders (total, pickup_code) VALUES ($1, $2) RETURNING id\<close>. The store
  receives the text of the number and rounds its value to the two places of the column.
\<close>

definition insert_order :: "env \<Rightarrow> database \<Rightarrow> rat \<Rightarrow> string \<Rightarrow> database \<times> uuid" where
  "insert_order e d t code =
     (let oid = gen_random_uuid e 0
      in (d\<lparr>orders := orders d @
            [\<lparr>o_id = oid, o_total = round_2dp (shortest_decimal t), o_created_at = now e, o_pickup_code = code\<rparr>]\<rparr>,
          oid))"

text \<open>
  \<^verbatim>\<open>INSERT INTO order_items (order_id, product_id, quantity) VALUES ($1, $2, $3)\<close>; the
  quantity goes into an \<^verbatim>\<open>INT\<close> column.
\<close>

definition insert_order_item :: "env \<Rightarrow> nat \<Rightarrow> database \<Rightarrow> uuid \<Rightarrow> uuid \<Rightarrow> rat \<Rightarrow> database option" where
  "insert_order_item e k d oid pid q =
     (if is_integer q
      then Some (d\<lparr>order_items := order_items d @
             [\<lparr>oi_id = gen_random_uuid e (Suc k), oi_order_id = oid, oi_product_id = pid,
               oi_quantity = \<lfloor>q\<rfloor>\<rparr>]\<rparr>)
      else None)"

section \<open>\<^verbatim>\<open>POST /api/orders\<close>\<close>

text \<open>
  The handler leaves its loops in three ways: a statement rejects and control passes to
  the \<^verbatim>\<open>catch\<close> block, the handler rolls back and returns a response of its own, or the loop
  runs to its end.
\<close>

datatype abort = Thrown | Returned response

text \<open>
  The variables of the first loop: the number of statements issued so far, the store as
  the transaction sees it, \<^verbatim>\<open>total\<close> (here \<open>total_acc\<close>) and \<^verbatim>\<open>orderItems\<close>. The loop takes the
  first row of the \<^verbatim>\<open>SELECT\<close>; \<^verbatim>\<open>Number(product.price)\<close> is the double nearest to the price of
  the row, \<^verbatim>\<open>price * item.quantity\<close> and \<^verbatim>\<open>total += ...\<close> are a multiplication and an addition
  of doubles. The quantity of an item is the number that the request body was parsed to.
\<close>

record loop_state =
  issued :: nat
  work :: database
  total_acc :: rat
  orderItems :: "order_line list"

fun for_items :: "env \<Rightarrow> item list \<Rightarrow> loop_state \<Rightarrow> abort + loop_state" where
  "for_items e [] s = Inr s"
| "for_items e (item # rest) s =
     (if throws e (issued s) then Inl Thrown
      else
        case select_product_for_update (work s) (productId item) of
          [] \<Rightarrow> Inl (Returned \<lparr>status = 404, json = Error (Product_not_found_id (productId item))\<rparr>)
        | product # _ \<Rightarrow>
            if rat_of_int (p_stock product) < quantity item
            then Inl (Returned \<lparr>status = 400,
                   json = Error (Insufficient_stock_for (p_name product) (p_stock product) (quantity item))\<rparr>)
            else if throws e (Suc (issued s)) then Inl Thrown
            else
              (case update_stock (work s) (quantity item) (productId item) of
                 None \<Rightarrow> Inl Thrown
               | Some d \<Rightarrow>
                   for_items e rest
                     \<lparr>issued = issued s + 2, work = d,
                      total_acc =
                        binary64 (total_acc s + binary64 (binary64 (p_price product) * quantity item)),
                      orderItems = orderItems s @
                        [\<lparr>ol_productId = p_id product, ol_quantity = quantity item,
                          ol_name = p_name product, ol_price = binary64 (p_price product)\<rparr>]\<rparr>))"

text \<open>The second loop, over \<^verbatim>\<open>orderItems\<close>; \<open>k\<close> counts the rows inserted so far.\<close>

fun for_orderItems :: "env \<Rightarrow> uuid \<Rightarrow> order_line list \<Rightarrow> nat \<Rightarrow> nat \<Rightarrow> database \<Rightarrow> database option" where
  "for_orderItems e oid [] n k d = Some d"
| "for_orderItems e oid (l # rest) n k d =
     (if throws e n then None
      else
        (case insert_order_item e k d oid (ol_productId l) (ol_quantity l) of
           None \<Rightarrow> None
         | Some d' \<Rightarrow> for_orderItems e oid rest (Suc n) (Suc k) d'))"

text \<open>
  \<^verbatim>\<open>Math.floor(100000 + Math.random() * 900000).toString().substring(0, 6)\<close>
\<close>

definition pickupCode :: "env \<Rightarrow> string" where
  "pickupCode e =
     take 6 (int_toString \<lfloor>binary64 (100000 + binary64 (math_random e * 900000))\<rfloor>)"

text \<open>\<^verbatim>\<open>const taxRate = 0.08\<close>: the double nearest to 8/100.\<close>

definition taxRate :: rat where
  "taxRate = binary64 (8 / 100)"

definition failed_to_create_order :: response where
  "failed_to_create_order = \<lparr>status = 500, json = Error Failed_to_create_order\<rparr>"

text \<open>
  The handler, from the store before the request to the response and the store after it.
  Inside the transaction the statements act on \<open>work\<close>; \<^verbatim>\<open>ROLLBACK\<close> gives back the store
  as it was at \<^verbatim>\<open>BEGIN\<close>, \<^verbatim>\<open>COMMIT\<close> makes \<open>work\<close> the store.
\<close>

definition post_orders :: "env \<Rightarrow> database \<Rightarrow> items_field \<Rightarrow> response \<times> database" where
  "post_orders e db items_in =
     (case items_in of
        Array items \<Rightarrow>
          if items = [] then (\<lparr>status = 400, json = Error Invalid_items_data_provided\<rparr>, db)
          else
            (case for_items e items \<lparr>issued = 0, work = db, total_acc = 0, orderItems = []\<rparr> of
               Inl Thrown \<Rightarrow> (failed_to_create_order, db)
             | Inl (Returned res) \<Rightarrow> (res, db)
             | Inr s \<Rightarrow>
                 let totalWithTax = binary64 (total_acc s * binary64 (1 + taxRate));
                     code = pickupCode e
                 in if throws e (issued s) then (failed_to_create_order, db)
                    else
                      let (d, orderId) = insert_order e (work s) totalWithTax code
                      in (case for_orderItems e orderId (orderItems s) (Suc (issued s)) 0 d of
                            None \<Rightarrow> (failed_to_create_order, db)
                          | Some d' \<Rightarrow>
                              (\<lparr>status = 200,
                                json = Order_created orderId (toFixed2 totalWithTax) code (orderItems s)\<rparr>,
                               d')))
      | _ \<Rightarrow> (\<lparr>status = 400, json = Error Invalid_items_data_provided\<rparr>, db))"

section \<open>\<^verbatim>\<open>GET /api/products/barcode/:barcode\<close>\<close>

text \<open>\<^verbatim>\<open>SELECT * FROM products WHERE barcode = $1\<close>: a row without barcode matches nothing.\<close>

definition select_by_barcode :: "database \<Rightarrow> string \<Rightarrow> product list" where
  "select_by_barcode d b = filter (\<lambda>p. p_barcode p = Some b) (products d)"

definition get_product_by_barcode :: "env \<Rightarrow> database \<Rightarrow> string \<Rightarrow> response" where
  "get_product_by_barcode e db barcode =
     (if throws e 0 then \<lparr>status = 500, json = Error Failed_to_fetch_product\<rparr>
      else
        case select_by_barcode db barcode of
          [] \<Rightarrow> \<lparr>status = 404, json = Error Product_not_found\<rparr>
        | row # _ \<Rightarrow> \<lparr>status = 200, json = Product_row row\<rparr>)"

section \<open>\<^verbatim>\<open>initDB\<close>\<close>

text \<open>The \<^verbatim>\<open>VALUES\<close> of the seeding statement: name, price, stock, barcode.\<close>

type_synonym seed = "string \<times> rat \<times> int \<times> string"

definition sample_products :: "seed list" where
  "sample_products =
     [(''Milk'', 3, 50, ''1234567890''),
      (''Bread'', 2, 100, ''1111222233''),
      (''Eggs'', 7 / 2, 75, ''6677889900''),
      (''Cheese'', 9 / 2, 40, ''4444555566''),
      (''Butter'', 11 / 4, 30, ''7777888899''),
      (''Yogurt'', 5 / 4, 60, ''3333444455''),
      (''Apple'', 3 / 4, 120, ''8888999900''),
      (''Banana'', 1 / 2, 150, ''2222333344''),
      (''Orange'', 17 / 20, 100, ''5555666677'')]"

text \<open>
  \<^verbatim>\<open>ON CONFLICT (name) DO UPDATE SET price = EXCLUDED.price, stock = EXCLUDED.stock,
  barcode = EXCLUDED.barcode\<close> on a row of the table.
\<close>

definition do_update :: "seed \<Rightarrow> product \<Rightarrow> product" where
  "do_update v p =
     (case v of (name, price, stock, barcode) \<Rightarrow>
        if p_name p = name then p\<lparr>p_price := price, p_stock := stock, p_barcode := Some barcode\<rparr>
        else p)"

text \<open>
  One row of the \<^verbatim>\<open>VALUES\<close> list: updated where a row of that name exists, inserted with a
  new id otherwise. \<open>k\<close> is the position of the row in the list.
\<close>

definition upsert :: "env \<Rightarrow> nat \<Rightarrow> seed \<Rightarrow> product list \<Rightarrow> product list" where
  "upsert e k v rows =
     (case v of (name, price, stock, barcode) \<Rightarrow>
        if name \<in> set (map p_name rows) then map (do_update v) rows
        else rows @ [\<lparr>p_id = gen_random_uuid e k, p_name = name, p_price = price,
                       p_stock = stock, p_barcode = Some barcode\<rparr>])"

fun insert_on_conflict :: "env \<Rightarrow> nat \<Rightarrow> seed list \<Rightarrow> product list \<Rightarrow> product list" where
  "insert_on_conflict e k [] rows = rows"
| "insert_on_conflict e k (v # vs) rows = insert_on_conflict e (Suc k) vs (upsert e k v rows)"

text \<open>
  \<^verbatim>\<open>initDB\<close>: three \<^verbatim>\<open>CREATE TABLE IF NOT EXISTS\<close> (which leave existing tables as they are)
  and the seeding statement. An error of any of the four is logged and thrown on; the
  seeding statement takes effect as a whole or not at all.
\<close>

datatype init_error = Rethrown

definition initDB :: "env \<Rightarrow> database \<Rightarrow> init_error + database" where
  "initDB e db =
     (if throws e 0 \<or> throws e 1 \<or> throws e 2 \<or> throws e 3 then Inl Rethrown
      else Inr (db\<lparr>products := insert_on_conflict e 0 sample_products (products db)\<rparr>))"

section \<open>Notions used to state the properties\<close>

text \<open>The variables of the first loop when it is entered.\<close>

definition initial :: "database \<Rightarrow> loop_state" where
  "initial db = \<lparr>issued = 0, work = db, total_acc = 0, orderItems = []\<rparr>"

text \<open>The row that \<^verbatim>\<open>productResult.rows[0]\<close> is, and its price.\<close>

definition first_row :: "product list \<Rightarrow> uuid \<Rightarrow> product option" where
  "first_row rows pid = (case filter (\<lambda>p. p_id p = pid) rows of [] \<Rightarrow> None | p # _ \<Rightarrow> Some p)"

definition unit_price :: "product list \<Rightarrow> uuid \<Rightarrow> rat" where
  "unit_price rows pid = (case first_row rows pid of None \<Rightarrow> 0 | Some p \<Rightarrow> p_price p)"

text \<open>The sum of unit price times quantity over the items of a request.\<close>

definition subtotal :: "product list \<Rightarrow> item list \<Rightarrow> rat" where
  "subtotal rows its = sum_list (map (\<lambda>it. unit_price rows (productId it) * quantity it) its)"

text \<open>
  The value of \<^verbatim>\<open>total\<close> after the first loop has run over the items, from the value \<open>t\<close>
  before it: each item adds its price times its quantity, in the arithmetic of doubles.
\<close>

definition accumulate :: "product list \<Rightarrow> rat \<Rightarrow> item list \<Rightarrow> rat" where
  "accumulate rows t its =
     foldl (\<lambda>t it. binary64 (t + binary64 (binary64 (unit_price rows (productId it)) * quantity it)))
       t its"

text \<open>The sum of the magnitudes of unit price times quantity over the items of a request.\<close>

definition gross :: "product list \<Rightarrow> item list \<Rightarrow> rat" where
  "gross rows its = sum_list (map (\<lambda>it. \<bar>unit_price rows (productId it) * quantity it\<bar>) its)"

text \<open>The quantity a request asks of one product, over all the items that name it.\<close>

definition requested :: "uuid \<Rightarrow> item list \<Rightarrow> rat" where
  "requested pid its = sum_list (map quantity (filter (\<lambda>it. productId it = pid) its))"

text \<open>The updates of a request, one after the other.\<close>

fun decrement_all :: "item list \<Rightarrow> product list \<Rightarrow> product list" where
  "decrement_all [] rows = rows"
| "decrement_all (it # rest) rows =
     decrement_all rest (map (decrement (quantity it) (productId it)) rows)"

text \<open>The variables of the first loop after an iteration that found the row \<open>p\<close>.\<close>

definition next_state :: "loop_state \<Rightarrow> item \<Rightarrow> product \<Rightarrow> loop_state" where
  "next_state s it p =
     \<lparr>issued = issued s + 2,
      work = (work s)\<lparr>products := map (decrement (quantity it) (productId it)) (products (work s))\<rparr>,
      total_acc = binary64 (total_acc s + binary64 (binary64 (p_price p) * quantity it)),
      orderItems = orderItems s @
        [\<lparr>ol_productId = p_id p, ol_quantity = quantity it,
          ol_name = p_name p, ol_price = binary64 (p_price p)\<rparr>]\<rparr>"

text \<open>A response that reports insufficient stock.\<close>

definition is_insufficient_stock :: "response \<Rightarrow> bool" where
  "is_insufficient_stock res =
     (status res = 400 \<and>
      (case json res of Error (Insufficient_stock_for n a r) \<Rightarrow> True | _ \<Rightarrow> False))"

text \<open>The \<^verbatim>\<open>UNIQUE\<close> constraint on \<^verbatim>\<open>barcode\<close>: no two rows with a barcode share it.\<close>

definition unique_barcodes :: "database \<Rightarrow> bool" where
  "unique_barcodes d = distinct (List.map_filter p_barcode (products d))"

text \<open>
  The table holds the seed \<open>v\<close>: some row has its name, and every row with its name has
  its price, stock and barcode.
\<close>

definition holds_seed :: "seed \<Rightarrow> product list \<Rightarrow> bool" where
  "holds_seed v rows =
     (case v of (name, price, stock, barcode) \<Rightarrow>
        (\<exists>p \<in> set rows. p_name p = name) \<and>
        (\<forall>p \<in> set rows. p_name p = name \<longrightarrow>
           p_price p = price \<and> p_stock p = stock \<and> p_barcode p = Some barcode))"

text \<open>
  Reading a two-decimal string back: an optional minus sign, at least one digit, a point
  and two digits denote the number of hundredths that the digits spell.
\<close>

definition is_digit :: "char \<Rightarrow> bool" where
  "is_digit c = (c \<in> set ''0123456789'')"

definition digit_value :: "char \<Rightarrow> nat" where
  "digit_value c = of_char c - 48"

definition digits_value :: "string \<Rightarrow> nat" where
  "digits_value s = foldl (\<lambda>a c. 10 * a + digit_value c) 0 s"

definition read_2dp :: "string \<Rightarrow> rat option" where
  "read_2dp s =
     (let neg = (s \<noteq> [] \<and> hd s = CHR ''-'');
          body = (if neg then tl s else s);
          whole = takeWhile is_digit body
      in case dropWhile is_digit body of
           [p, a, b] \<Rightarrow>
             if p = CHR ''.'' \<and> whole \<noteq> [] \<and> is_digit a \<and> is_digit b
             then Some ((if neg then - 1 else 1) * rat_of_nat (digits_value (whole @ [a, b])) / 100)
             else None
         | _ \<Rightarrow> None)"

text \<open>A value of a \<^verbatim>\<open>DECIMAL(10,2)\<close> column: a whole number of hundredths.\<close>

definition two_decimals :: "rat \<Rightarrow> bool" where
  "two_decimals r = is_integer (r * 100)"

text \<open>
  A double, or the sum of two doubles: a whole multiple of the smallest positive double
  \<open>2\<^sup>-\<^sup>1\<^sup>0\<^sup>7\<^sup>4\<close>.
\<close>

definition on_grid :: "rat \<Rightarrow> bool" where
  "on_grid x = is_integer (x * 2 ^ 1074)"

section \<open>A small store\<close>

text \<open>
  Two rows of the seeded catalogue, a store that holds them, and an environment in which
  no statement is rejected.
\<close>

definition milk :: product where
  "milk = \<lparr>p_id = 1, p_name = ''Milk'', p_price = 3, p_stock = 50,
           p_barcode = Some ''1234567890''\<rparr>"

definition bread :: product where
  "bread = \<lparr>p_id = 2, p_name = ''Bread'', p_price = 2, p_stock = 100,
            p_barcode = Some ''1111222233''\<rparr>"

definition shop :: database where
  "shop = \<lparr>products = [milk, bread], orders = [], order_items = []\<rparr>"

definition quiet :: env where
  "quiet = \<lparr>throws = (\<lambda>k. False), gen_random_uuid = (\<lambda>k. 1000 + of_nat k),
            math_random = 1 / 2, now = 0\<rparr>"

text \<open>
  A product that is not in the seed list, and the small store after two units of milk were
  sold and the bread was replaced by that product.
\<close>

definition soda :: product where
  "soda = \<lparr>p_id = 3, p_name = ''Soda'', p_price = 1, p_stock = 10, p_barcode = None\<rparr>"

definition after_sale :: database where
  "after_sale = \<lparr>products = [milk\<lparr>p_stock := 48\<rparr>, soda], orders = [], order_items = []\<rparr>"

text \<open>
  A store that holds the oranges of the seeded catalogue, and a request that takes three
  of them and returns them one by one.
\<close>

definition orange :: product where
  "orange = \<lparr>p_id = 9, p_name = ''Orange'', p_price = 17 / 20, p_stock = 100,
             p_barcode = Some ''5555666677''\<rparr>"

definition fruit :: database where
  "fruit = \<lparr>products = [orange], orders = [], order_items = []\<rparr>"

definition take_and_return :: "item list" where
  "take_and_return =
     [\<lparr>productId = 9, quantity = 3\<rparr>, \<lparr>productId = 9, quantity = - 1\<rparr>,
      \<lparr>productId = 9, quantity = - 1\<rparr>, \<lparr>productId = 9, quantity = - 1\<rparr>]"

text \<open>That store after a restart in which the seeding step ran.\<close>

definition restarted :: database where
  "restarted =
     \<lparr>products =
        [milk, soda,
         \<lparr>p_id = 1001, p_name = ''Bread'', p_price = 2, p_stock = 100,
           p_barcode = Some ''1111222233''\<rparr>,
         \<lparr>p_id = 1002, p_name = ''Eggs'', p_price = 7 / 2, p_stock = 75,
           p_barcode = Some ''6677889900''\<rparr>,
         \<lparr>p_id = 1003, p_name = ''Cheese'', p_price = 9 / 2, p_stock = 40,
           p_barcode = Some ''4444555566''\<rparr>,
         \<lparr>p_id = 1004, p_name = ''Butter'', p_price = 11 / 4, p_stock = 30,
           p_barcode = Some ''7777888899''\<rparr>,
         \<lparr>p_id = 1005, p_name = ''Yogurt'', p_price = 5 / 4, p_stock = 60,
           p_barcode = Some ''3333444455''\<rparr>,
         \<lparr>p_id = 1006, p_name = ''Apple'', p_price = 3 / 4, p_stock = 120,
           p_barcode = Some ''8888999900''\<rparr>,
         \<lparr>p_id = 1007, p_name = ''Banana'', p_price = 1 / 2, p_stock = 150,
           p_barcode = Some ''2222333344''\<rparr>,
         \<lparr>p_id = 1008, p_name = ''Orange'', p_price = 17 / 20, p_stock = 100,
           p_barcode = Some ''5555666677''\<rparr>],
      orders = [], order_items = []\<rparr>"

section \<open>The first loop\<close>

lemma for_items_Cons_Inr:
  assumes "for_items e (it # rest) s = Inr s'"
  obtains p ps where
    "\<not> throws e (issued s)"
    "select_product_for_update (work s) (productId it) = p # ps"
    "\<not> rat_of_int (p_stock p) < quantity it"
    "\<not> throws e (Suc (issued s))"
    "is_integer (quantity it)"
    "for_items e rest (next_state s it p) = Inr s'"
  using assms
  by (auto simp: next_state_def update_stock_def split: if_splits list.splits option.splits)

lemma for_items_Cons_ok:
  assumes "\<not> throws e (issued s)"
    "select_product_for_update (work s) (productId it) = p # ps"
    "\<not> rat_of_int (p_stock p) < quantity it"
    "\<not> throws e (Suc (issued s))"
    "is_integer (quantity it)"
  shows "for_items e (it # rest) s = for_items e rest (next_state s it p)"
  using assms
  by (simp add: next_state_def update_stock_def)

lemma p_id_decrement [simp]: "p_id (decrement q pid p) = p_id p"
  by (simp add: decrement_def)

lemma p_name_decrement [simp]: "p_name (decrement q pid p) = p_name p"
  by (simp add: decrement_def)

lemma p_price_decrement [simp]: "p_price (decrement q pid p) = p_price p"
  by (simp add: decrement_def)

lemma p_barcode_decrement [simp]: "p_barcode (decrement q pid p) = p_barcode p"
  by (simp add: decrement_def)

lemma filter_id_decrement:
  "filter (\<lambda>p. p_id p = x) (map (decrement q pid) rows) =
   map (decrement q pid) (filter (\<lambda>p. p_id p = x) rows)"
  by (induction rows) simp_all

lemma first_row_decrement:
  "first_row (map (decrement q pid) rows) x = map_option (decrement q pid) (first_row rows x)"
  by (simp add: first_row_def filter_id_decrement split: list.splits)

lemma unit_price_decrement [simp]:
  "unit_price (map (decrement q pid) rows) x = unit_price rows x"
  by (simp add: unit_price_def first_row_decrement split: option.splits)

lemma subtotal_decrement [simp]:
  "subtotal (map (decrement q pid) rows) its = subtotal rows its"
  by (simp add: subtotal_def)

lemma select_first_row:
  "select_product_for_update d pid = p # ps \<Longrightarrow> first_row (products d) pid = Some p"
  by (simp add: select_product_for_update_def first_row_def)

lemma next_state_simps [simp]:
  "products (work (next_state s it p)) =
     map (decrement (quantity it) (productId it)) (products (work s))"
  "orders (work (next_state s it p)) = orders (work s)"
  "order_items (work (next_state s it p)) = order_items (work s)"
  "issued (next_state s it p) = issued s + 2"
  "total_acc (next_state s it p) =
     binary64 (total_acc s + binary64 (binary64 (p_price p) * quantity it))"
  by (simp_all add: next_state_def)

lemma for_items_issued:
  "for_items e its s = Inr s' \<Longrightarrow> issued s' = issued s + 2 * length its"
proof (induction its arbitrary: s)
  case Nil
  then show ?case by simp
next
  case (Cons it rest)
  from Cons.prems show ?case
    by (rule for_items_Cons_Inr) (use Cons.IH in force)
qed

lemma for_items_products:
  "for_items e its s = Inr s' \<Longrightarrow> products (work s') = decrement_all its (products (work s))"
proof (induction its arbitrary: s)
  case Nil
  then show ?case by simp
next
  case (Cons it rest)
  from Cons.prems show ?case
    by (rule for_items_Cons_Inr) (use Cons.IH in force)
qed

lemma for_items_orders:
  "for_items e its s = Inr s' \<Longrightarrow>
   orders (work s') = orders (work s) \<and> order_items (work s') = order_items (work s)"
proof (induction its arbitrary: s)
  case Nil
  then show ?case by simp
next
  case (Cons it rest)
  from Cons.prems show ?case
    by (rule for_items_Cons_Inr) (use Cons.IH in force)
qed

lemma for_items_integer:
  "for_items e its s = Inr s' \<Longrightarrow> it \<in> set its \<Longrightarrow> is_integer (quantity it)"
proof (induction its arbitrary: s)
  case Nil
  then show ?case by simp
next
  case (Cons a rest)
  from Cons.prems(1) show ?case
    by (rule for_items_Cons_Inr) (use Cons.IH Cons.prems(2) in auto)
qed

lemma accumulate_decrement [simp]:
  "accumulate (map (decrement q pid) rows) t its = accumulate rows t its"
  by (simp add: accumulate_def)

lemma for_items_total:
  "for_items e its s = Inr s' \<Longrightarrow> total_acc s' = accumulate (products (work s)) (total_acc s) its"
proof (induction its arbitrary: s)
  case Nil
  then show ?case by (simp add: accumulate_def)
next
  case (Cons it rest)
  from Cons.prems show ?case
  proof (rule for_items_Cons_Inr)
    fix p ps
    assume sel: "select_product_for_update (work s) (productId it) = p # ps"
      and rest: "for_items e rest (next_state s it p) = Inr s'"
    have "unit_price (products (work s)) (productId it) = p_price p"
      using select_first_row [OF sel] by (simp add: unit_price_def)
    moreover have "total_acc s' =
        accumulate (products (work (next_state s it p))) (total_acc (next_state s it p)) rest"
      using Cons.IH [OF rest] .
    ultimately show ?thesis
      by (simp add: accumulate_def)
  qed
qed

lemma orderItems_next_state [simp]:
  "orderItems (next_state s it p) = orderItems s @
        [\<lparr>ol_productId = p_id p, ol_quantity = quantity it,
          ol_name = p_name p, ol_price = binary64 (p_price p)\<rparr>]"
  by (simp add: next_state_def)

lemma select_p_id:
  "select_product_for_update d pid = p # ps \<Longrightarrow> p_id p = pid \<and> p \<in> set (products d)"
proof -
  assume "select_product_for_update d pid = p # ps"
  then have "p \<in> set (filter (\<lambda>p. p_id p = pid) (products d))"
    by (simp add: select_product_for_update_def)
  then show ?thesis by simp
qed

lemma for_items_orderItems:
  "for_items e its s = Inr s' \<Longrightarrow>
   map ol_productId (orderItems s') = map ol_productId (orderItems s) @ map productId its \<and>
   map ol_quantity (orderItems s') = map ol_quantity (orderItems s) @ map quantity its \<and>
   map ol_price (orderItems s') =
     map ol_price (orderItems s) @
       map (\<lambda>it. binary64 (unit_price (products (work s)) (productId it))) its"
proof (induction its arbitrary: s)
  case Nil
  then show ?case by simp
next
  case (Cons it rest)
  from Cons.prems show ?case
  proof (rule for_items_Cons_Inr)
    fix p ps
    assume sel: "select_product_for_update (work s) (productId it) = p # ps"
      and rest: "for_items e rest (next_state s it p) = Inr s'"
    have "unit_price (products (work s)) (productId it) = p_price p"
      using select_first_row [OF sel] by (simp add: unit_price_def)
    moreover have "p_id p = productId it"
      using select_p_id [OF sel] by simp
    ultimately show ?thesis
      using Cons.IH [OF rest] by simp
  qed
qed

lemma for_items_found:
  "for_items e its s = Inr s' \<Longrightarrow> it \<in> set its \<Longrightarrow> productId it \<in> p_id ` set (products (work s))"
proof (induction its arbitrary: s)
  case Nil
  then show ?case by simp
next
  case (Cons a rest)
  from Cons.prems(1) show ?case
  proof (rule for_items_Cons_Inr)
    fix p ps
    assume sel: "select_product_for_update (work s) (productId a) = p # ps"
      and rest: "for_items e rest (next_state s a p) = Inr s'"
    show ?thesis
    proof (cases "it = a")
      case True
      then show ?thesis using select_p_id [OF sel] by force
    next
      case False
      then have "it \<in> set rest" using Cons.prems(2) by simp
      from Cons.IH [OF rest this] show ?thesis by (simp add: image_image)
    qed
  qed
qed

lemma for_items_append:
  "for_items e (pre @ post) s =
     (case for_items e pre s of Inl a \<Rightarrow> Inl a | Inr s1 \<Rightarrow> for_items e post s1)"
  by (induction pre arbitrary: s) (simp_all split: list.splits option.splits)

section \<open>The second loop\<close>

lemma for_orderItems_Cons_Some:
  assumes "for_orderItems e oid (l # rest) n k d = Some d'"
  obtains "\<not> throws e n" "is_integer (ol_quantity l)"
    "for_orderItems e oid rest (Suc n) (Suc k)
       (d\<lparr>order_items := order_items d @
          [\<lparr>oi_id = gen_random_uuid e (Suc k), oi_order_id = oid,
            oi_product_id = ol_productId l, oi_quantity = \<lfloor>ol_quantity l\<rfloor>\<rparr>]\<rparr>) = Some d'"
  using assms
  by (auto simp: insert_order_item_def split: if_splits option.splits)

lemma for_orderItems_tables:
  "for_orderItems e oid ls n k d = Some d' \<Longrightarrow>
   products d' = products d \<and> orders d' = orders d"
proof (induction ls arbitrary: n k d)
  case Nil
  then show ?case by simp
next
  case (Cons l rest)
  from Cons.prems show ?case
    by (rule for_orderItems_Cons_Some) (use Cons.IH in force)
qed

lemma for_orderItems_rows:
  "for_orderItems e oid ls n k d = Some d' \<Longrightarrow>
   \<exists>rows. order_items d' = order_items d @ rows \<and>
     map oi_product_id rows = map ol_productId ls \<and>
     map oi_quantity rows = map (\<lambda>l. \<lfloor>ol_quantity l\<rfloor>) ls \<and>
     map oi_order_id rows = replicate (length ls) oid"
proof (induction ls arbitrary: n k d)
  case Nil
  then show ?case by simp
next
  case (Cons l rest)
  from Cons.prems show ?case
  proof (rule for_orderItems_Cons_Some)
    let ?r = "\<lparr>oi_id = gen_random_uuid e (Suc k), oi_order_id = oid,
            oi_product_id = ol_productId l, oi_quantity = \<lfloor>ol_quantity l\<rfloor>\<rparr>"
    assume "for_orderItems e oid rest (Suc n) (Suc k) (d\<lparr>order_items := order_items d @ [?r]\<rparr>) = Some d'"
    from Cons.IH [OF this] obtain rows where
      "order_items d' = (order_items d @ [?r]) @ rows"
      "map oi_product_id rows = map ol_productId rest"
      "map oi_quantity rows = map (\<lambda>l. \<lfloor>ol_quantity l\<rfloor>) rest"
      "map oi_order_id rows = replicate (length rest) oid"
      by auto
    then have "order_items d' = order_items d @ (?r # rows) \<and>
      map oi_product_id (?r # rows) = map ol_productId (l # rest) \<and>
      map oi_quantity (?r # rows) = map (\<lambda>l. \<lfloor>ol_quantity l\<rfloor>) (l # rest) \<and>
      map oi_order_id (?r # rows) = replicate (length (l # rest)) oid"
      by simp
    then show ?thesis by blast
  qed
qed

lemma for_orderItems_succeeds:
  "\<forall>j < length ls. \<not> throws e (n + j) \<Longrightarrow> \<forall>l \<in> set ls. is_integer (ol_quantity l) \<Longrightarrow>
   \<exists>d'. for_orderItems e oid ls n k d = Some d'"
proof (induction ls arbitrary: n k d)
  case Nil
  then show ?case by simp
next
  case (Cons l rest)
  have "\<not> throws e n" using Cons.prems(1) by force
  moreover have "\<forall>j < length rest. \<not> throws e (Suc n + j)"
    using Cons.prems(1) by force
  ultimately show ?case
    using Cons.IH [of "Suc n"] Cons.prems(2) by (simp add: insert_order_item_def)
qed

section \<open>The ways out of the handler\<close>

lemma for_items_Returned_status:
  "for_items e its s = Inl (Returned res) \<Longrightarrow> status res = 400 \<or> status res = 404"
  by (induction its arbitrary: s) (auto split: if_splits list.splits option.splits)

lemma post_orders_not_200:
  assumes "post_orders e db items_in = (res, db')" "status res \<noteq> 200"
  shows "db' = db"
proof (cases items_in)
  case (Array its)
  show ?thesis
  proof (cases "for_items e its (initial db)")
    case (Inl a)
    then show ?thesis
      using assms Array
      by (cases a) (auto simp: post_orders_def initial_def split: if_splits)
  next
    case (Inr s)
    then show ?thesis
      using assms Array
      by (auto simp: post_orders_def initial_def Let_def failed_to_create_order_def
          split: if_splits prod.splits option.splits)
  qed
qed (use assms in \<open>auto simp: post_orders_def\<close>)

lemma post_orders_200:
  assumes "post_orders e db items_in = (res, db')" "status res = 200"
  obtains its s where
    "items_in = Array its" "its \<noteq> []"
    "for_items e its (initial db) = Inr s"
    "\<not> throws e (issued s)"
    "res = \<lparr>status = 200,
       json = Order_created (gen_random_uuid e 0) (toFixed2 (binary64 (total_acc s * binary64 (1 + taxRate))))
                (pickupCode e) (orderItems s)\<rparr>"
    "for_orderItems e (gen_random_uuid e 0) (orderItems s) (Suc (issued s)) 0
       ((work s)\<lparr>orders := orders (work s) @
          [\<lparr>o_id = gen_random_uuid e 0, o_total = round_2dp (shortest_decimal (binary64 (total_acc s * binary64 (1 + taxRate)))),
            o_created_at = now e, o_pickup_code = pickupCode e\<rparr>]\<rparr>) = Some db'"
proof (cases items_in)
  case (Array its)
  show ?thesis
  proof (cases "for_items e its (initial db)")
    case (Inl a)
    then have False
      using assms Array for_items_Returned_status [of e its "initial db"]
      by (cases a) (auto simp: post_orders_def initial_def failed_to_create_order_def split: if_splits)
    then show ?thesis ..
  next
    case (Inr s)
    then show ?thesis
      using assms Array that [of its s]
      by (auto simp: post_orders_def initial_def Let_def failed_to_create_order_def insert_order_def
          split: if_splits prod.splits option.splits)
  qed
qed (use assms in \<open>auto simp: post_orders_def\<close>)

section \<open>Stock after the updates of a request\<close>

lemma is_integer_floor_add:
  "is_integer q \<Longrightarrow> \<lfloor>q + r\<rfloor> = \<lfloor>q\<rfloor> + \<lfloor>r\<rfloor>"
proof -
  assume "is_integer q"
  then have "q = rat_of_int \<lfloor>q\<rfloor>" by (simp add: is_integer_def)
  then have "\<lfloor>q + r\<rfloor> = \<lfloor>rat_of_int \<lfloor>q\<rfloor> + r\<rfloor>" by simp
  also have "\<dots> = \<lfloor>q\<rfloor> + \<lfloor>r\<rfloor>" by (simp only: int_add_floor)
  finally show ?thesis .
qed

lemma is_integer_add:
  "is_integer q \<Longrightarrow> is_integer r \<Longrightarrow> is_integer (q + r)"
  unfolding is_integer_def
  by (metis floor_of_int of_int_add)

lemma is_integer_0 [simp]: "is_integer 0"
  by (simp add: is_integer_def)

lemma is_integer_sum_list:
  "\<forall>q \<in> set qs. is_integer q \<Longrightarrow> is_integer (sum_list qs)"
  by (induction qs) (simp_all add: is_integer_add)

lemma is_integer_requested:
  "\<forall>it \<in> set its. is_integer (quantity it) \<Longrightarrow> is_integer (requested pid its)"
  unfolding requested_def by (rule is_integer_sum_list) auto

lemma requested_Cons:
  "requested pid (it # rest) =
     (if productId it = pid then quantity it + requested pid rest else requested pid rest)"
  by (simp add: requested_def)

lemma requested_Nil [simp]: "requested pid [] = 0"
  by (simp add: requested_def)

lemma decrement_all_eq:
  "\<forall>it \<in> set its. is_integer (quantity it) \<Longrightarrow>
   decrement_all its rows =
     map (\<lambda>p. p\<lparr>p_stock := p_stock p - \<lfloor>requested (p_id p) its\<rfloor>\<rparr>) rows"
proof (induction its arbitrary: rows)
  case Nil
  then show ?case by (simp add: map_idI)
next
  case (Cons it rest)
  have q: "is_integer (quantity it)" using Cons.prems by simp
  have "decrement_all (it # rest) rows =
      map (\<lambda>p. p\<lparr>p_stock := p_stock p - \<lfloor>requested (p_id p) rest\<rfloor>\<rparr>)
        (map (decrement (quantity it) (productId it)) rows)"
    using Cons.IH [of "map (decrement (quantity it) (productId it)) rows"] Cons.prems by simp
  also have "\<dots> = map (\<lambda>p. p\<lparr>p_stock := p_stock p - \<lfloor>requested (p_id p) (it # rest)\<rfloor>\<rparr>) rows"
    by (simp add: requested_Cons decrement_def is_integer_floor_add [OF q] algebra_simps)
  finally show ?case .
qed

lemma sum_list_single:
  "distinct (map f xs) \<Longrightarrow> a \<in> f ` set xs \<Longrightarrow> (\<Sum>x\<leftarrow>xs. if f x = a then c else 0) = (c::int)"
proof (induction xs)
  case Nil
  then show ?case by simp
next
  case (Cons x xs)
  show ?case
  proof (cases "f x = a")
    case True
    then have "a \<notin> f ` set xs" using Cons.prems(1) by auto
    then have "(\<Sum>x\<leftarrow>xs. if f x = a then c else 0) = 0"
      by (induction xs) auto
    then show ?thesis using True by simp
  next
    case False
    then show ?thesis using Cons by auto
  qed
qed

lemma sum_requested:
  assumes "distinct (map p_id rows)"
    and "\<forall>it \<in> set its. is_integer (quantity it)"
    and "\<forall>it \<in> set its. productId it \<in> p_id ` set rows"
  shows "(\<Sum>p\<leftarrow>rows. \<lfloor>requested (p_id p) its\<rfloor>) = (\<Sum>it\<leftarrow>its. \<lfloor>quantity it\<rfloor>)"
  using assms(2,3)
proof (induction its)
  case Nil
  then show ?case by simp
next
  case (Cons it rest)
  have q: "is_integer (quantity it)" using Cons.prems by simp
  have "(\<Sum>p\<leftarrow>rows. \<lfloor>requested (p_id p) (it # rest)\<rfloor>) =
      (\<Sum>p\<leftarrow>rows. (if p_id p = productId it then \<lfloor>quantity it\<rfloor> else 0) + \<lfloor>requested (p_id p) rest\<rfloor>)"
    by (rule arg_cong [where f = sum_list], rule map_cong)
       (auto simp: requested_Cons is_integer_floor_add [OF q])
  also have "\<dots> = (\<Sum>p\<leftarrow>rows. if p_id p = productId it then \<lfloor>quantity it\<rfloor> else 0) +
      (\<Sum>p\<leftarrow>rows. \<lfloor>requested (p_id p) rest\<rfloor>)"
    by (simp add: sum_list_addf)
  also have "(\<Sum>p\<leftarrow>rows. if p_id p = productId it then \<lfloor>quantity it\<rfloor> else 0) = \<lfloor>quantity it\<rfloor>"
    using assms(1) Cons.prems(2) by (intro sum_list_single) auto
  finally show ?case using Cons by simp
qed

lemma sum_list_floor:
  "\<forall>q \<in> set qs. is_integer q \<Longrightarrow> rat_of_int (\<Sum>q\<leftarrow>qs. \<lfloor>q\<rfloor>) = sum_list qs"
  by (induction qs) (auto simp: is_integer_def)

lemma sum_stock_decrement:
  "(\<Sum>p\<leftarrow>rows. p_stock p) - (\<Sum>p\<leftarrow>map (\<lambda>p. p\<lparr>p_stock := p_stock p - f p\<rparr>) rows. p_stock p) =
   (\<Sum>p\<leftarrow>rows. f p)"
  by (induction rows) simp_all

section \<open>Evaluating the small store\<close>

lemma quiet_simps [simp]:
  "throws quiet k = False"
  "gen_random_uuid quiet k = 1000 + of_nat k"
  "math_random quiet = 1 / 2"
  "now quiet = 0"
  by (simp_all add: quiet_def)

lemma shop_simps [simp]:
  "products shop = [milk, bread]" "orders shop = []" "order_items shop = []"
  by (simp_all add: shop_def)

lemma milk_simps [simp]:
  "p_id milk = 1" "p_name milk = ''Milk''" "p_price milk = 3" "p_stock milk = 50"
  "p_barcode milk = Some ''1234567890''"
  by (simp_all add: milk_def)

lemma bread_simps [simp]:
  "p_id bread = 2" "p_name bread = ''Bread''" "p_price bread = 2" "p_stock bread = 100"
  "p_barcode bread = Some ''1111222233''"
  by (simp_all add: bread_def)

lemma is_integer_of_int [simp]: "is_integer (rat_of_int i)"
  by (simp add: is_integer_def)

lemma is_integer_numeral [simp]: "is_integer (numeral n)" "is_integer (- numeral n)" "is_integer 1"
  by (simp_all add: is_integer_def)

lemma decimal_small: "n < 10 \<Longrightarrow> decimal n = [digit_char n]"
  by (simp add: decimal.simps)

lemma decimal_large: "10 \<le> n \<Longrightarrow> decimal n = decimal (n div 10) @ [digit_char (n mod 10)]"
  by (subst decimal.simps) simp

section \<open>Invalid requests\<close>

text \<open>
  C6. A request whose \<^verbatim>\<open>items\<close> field is absent, is not a list or is the empty list is
  answered with status 400 and the error \<^verbatim>\<open>Invalid items data provided.\<close>; the store is
  left as it was: no order is created and no stock changes.
\<close>

theorem invalid_items_rejected:
  "items_in = Undefined \<or> items_in = Non_array \<or> items_in = Array [] \<Longrightarrow>
   post_orders e db items_in = (\<lparr>status = 400, json = Error Invalid_items_data_provided\<rparr>, db)"
  by (auto simp: post_orders_def)

theorem invalid_items_rejected_witness:
  "post_orders quiet shop Undefined =
     (\<lparr>status = 400, json = Error Invalid_items_data_provided\<rparr>, shop) \<and>
   post_orders quiet shop Non_array =
     (\<lparr>status = 400, json = Error Invalid_items_data_provided\<rparr>, shop) \<and>
   post_orders quiet shop (Array []) =
     (\<lparr>status = 400, json = Error Invalid_items_data_provided\<rparr>, shop)"
  using invalid_items_rejected [of Undefined quiet shop]
    invalid_items_rejected [of Non_array quiet shop]
    invalid_items_rejected [of "Array []" quiet shop]
  by simp

section \<open>What a placed order leaves in the store\<close>

lemma post_orders_200_store:
  assumes "post_orders e db items_in = (res, db')" "status res = 200"
  obtains its ord rows where
    "items_in = Array its" "its \<noteq> []"
    "\<forall>it \<in> set its. is_integer (quantity it)"
    "\<forall>it \<in> set its. productId it \<in> p_id ` set (products db)"
    "products db' = decrement_all its (products db)"
    "orders db' = orders db @ [ord]"
    "order_items db' = order_items db @ rows"
    "map oi_product_id rows = map productId its"
    "map oi_quantity rows = map (\<lambda>it. \<lfloor>quantity it\<rfloor>) its"
    "map oi_order_id rows = replicate (length its) (o_id ord)"
proof -
  from assms obtain its s where its: "items_in = Array its" "its \<noteq> []"
    and loop: "for_items e its (initial db) = Inr s"
    and ins: "for_orderItems e (gen_random_uuid e 0) (orderItems s) (Suc (issued s)) 0
       ((work s)\<lparr>orders := orders (work s) @
          [\<lparr>o_id = gen_random_uuid e 0, o_total = round_2dp (shortest_decimal (binary64 (total_acc s * binary64 (1 + taxRate)))),
            o_created_at = now e, o_pickup_code = pickupCode e\<rparr>]\<rparr>) = Some db'"
    by (rule post_orders_200)
  let ?ord = "\<lparr>o_id = gen_random_uuid e 0, o_total = round_2dp (shortest_decimal (binary64 (total_acc s * binary64 (1 + taxRate)))),
            o_created_at = now e, o_pickup_code = pickupCode e\<rparr>"
  have lines: "map ol_productId (orderItems s) = map productId its"
    "map ol_quantity (orderItems s) = map quantity its"
    using for_items_orderItems [OF loop] by (simp_all add: initial_def)
  have len: "length (orderItems s) = length its"
    using lines(1) by (metis length_map)
  from for_orderItems_rows [OF ins] obtain rows where rows:
    "order_items db' = order_items (work s) @ rows"
    "map oi_product_id rows = map ol_productId (orderItems s)"
    "map oi_quantity rows = map (\<lambda>l. \<lfloor>ol_quantity l\<rfloor>) (orderItems s)"
    "map oi_order_id rows = replicate (length (orderItems s)) (gen_random_uuid e 0)"
    by auto
  have q: "map (\<lambda>l. \<lfloor>ol_quantity l\<rfloor>) (orderItems s) = map (\<lambda>it. \<lfloor>quantity it\<rfloor>) its"
  proof -
    have "map (\<lambda>l. \<lfloor>ol_quantity l\<rfloor>) (orderItems s) = map floor (map ol_quantity (orderItems s))"
      by simp
    also have "\<dots> = map floor (map quantity its)" by (simp only: lines(2))
    finally show ?thesis by simp
  qed
  show ?thesis
  proof (rule that [of its ?ord rows])
    show "items_in = Array its" "its \<noteq> []" by fact+
    show "\<forall>it \<in> set its. is_integer (quantity it)"
      using for_items_integer [OF loop] by blast
    show "\<forall>it \<in> set its. productId it \<in> p_id ` set (products db)"
      using for_items_found [OF loop] by (simp add: initial_def)
    show "products db' = decrement_all its (products db)"
      using for_orderItems_tables [OF ins] for_items_products [OF loop] by (simp add: initial_def)
    show "orders db' = orders db @ [?ord]"
      using for_orderItems_tables [OF ins] for_items_orders [OF loop] by (simp add: initial_def)
    show "order_items db' = order_items db @ rows"
      using rows(1) for_items_orders [OF loop] by (simp add: initial_def)
    show "map oi_product_id rows = map productId its"
      using rows(2) lines(1) by simp
    show "map oi_quantity rows = map (\<lambda>it. \<lfloor>quantity it\<rfloor>) its"
      using rows(3) q by simp
    show "map oi_order_id rows = replicate (length its) (o_id ?ord)"
      using rows(4) len by simp
  qed
qed

lemma for_items_check_fails:
  assumes "for_items e pre s = Inr s1"
    and "first_row (products (work s1)) (productId it) = None \<or>
      (\<exists>p. first_row (products (work s1)) (productId it) = Some p \<and>
        rat_of_int (p_stock p) < quantity it)"
  shows "\<exists>a. for_items e (pre @ it # post) s = Inl a"
  using assms
  by (auto simp: for_items_append first_row_def select_product_for_update_def
      split: list.splits)

lemma post_orders_Inl:
  assumes "for_items e its (initial db) = Inl a" "post_orders e db (Array its) = (res, db')"
  shows "status res \<noteq> 200"
proof (cases a)
  case Thrown
  then show ?thesis
    using assms by (auto simp: post_orders_def initial_def failed_to_create_order_def split: if_splits)
next
  case (Returned r)
  then show ?thesis
    using assms for_items_Returned_status [of e its "initial db" r]
    by (auto simp: post_orders_def initial_def split: if_splits)
qed

text \<open>
  C1. Order placement is atomic. Whatever the request and whichever statements the store
  rejects, the handler ends in one of two ways: with status 200, and then all the stock
  updates of the request, its one order row and its order-item rows (one per item) are in
  the store together; or with another status, and then the store is exactly as it was
  before the request. An item that fails a check when the loop reaches it (no such
  product, or a quantity above the stock at that moment) puts the request in the second
  case, however many valid items came before it.
\<close>

theorem order_placement_atomic:
  assumes "post_orders e db items_in = (res, db')"
  shows "((status res = 200 \<and>
           (\<exists>its ord rows. items_in = Array its \<and>
              products db' = decrement_all its (products db) \<and>
              orders db' = orders db @ [ord] \<and>
              order_items db' = order_items db @ rows \<and>
              map oi_product_id rows = map productId its \<and>
              map oi_quantity rows = map (\<lambda>it. \<lfloor>quantity it\<rfloor>) its \<and>
              map oi_order_id rows = replicate (length its) (o_id ord))) \<or>
          (status res \<noteq> 200 \<and> db' = db)) \<and>
         (\<forall>pre it post s.
            items_in = Array (pre @ it # post) \<and>
            for_items e pre (initial db) = Inr s \<and>
            (first_row (products (work s)) (productId it) = None \<or>
             (\<exists>p. first_row (products (work s)) (productId it) = Some p \<and>
                  rat_of_int (p_stock p) < quantity it)) \<longrightarrow>
            status res \<noteq> 200 \<and> db' = db)"
proof (intro conjI allI impI)
  show "(status res = 200 \<and>
           (\<exists>its ord rows. items_in = Array its \<and>
              products db' = decrement_all its (products db) \<and>
              orders db' = orders db @ [ord] \<and>
              order_items db' = order_items db @ rows \<and>
              map oi_product_id rows = map productId its \<and>
              map oi_quantity rows = map (\<lambda>it. \<lfloor>quantity it\<rfloor>) its \<and>
              map oi_order_id rows = replicate (length its) (o_id ord))) \<or>
          (status res \<noteq> 200 \<and> db' = db)"
  proof (cases "status res = 200")
    case True
    from assms True obtain its ord rows where
      "items_in = Array its"
      "products db' = decrement_all its (products db)"
      "orders db' = orders db @ [ord]"
      "order_items db' = order_items db @ rows"
      "map oi_product_id rows = map productId its"
      "map oi_quantity rows = map (\<lambda>it. \<lfloor>quantity it\<rfloor>) its"
      "map oi_order_id rows = replicate (length its) (o_id ord)"
      by (rule post_orders_200_store)
    with True show ?thesis by blast
  next
    case False
    then show ?thesis using post_orders_not_200 [OF assms] by simp
  qed
next
  fix pre it post s
  assume a: "items_in = Array (pre @ it # post) \<and>
            for_items e pre (initial db) = Inr s \<and>
            (first_row (products (work s)) (productId it) = None \<or>
             (\<exists>p. first_row (products (work s)) (productId it) = Some p \<and>
                  rat_of_int (p_stock p) < quantity it))"
  then obtain x where "for_items e (pre @ it # post) (initial db) = Inl x"
    using for_items_check_fails [of e pre "initial db" s it post] by blast
  then have "status res \<noteq> 200"
    using post_orders_Inl assms a by blast
  then show "status res \<noteq> 200" "db' = db"
    using post_orders_not_200 [OF assms] by simp_all
qed

lemma initial_simps [simp]:
  "issued (initial db) = 0" "work (initial db) = db" "total_acc (initial db) = 0"
  "orderItems (initial db) = []"
  by (simp_all add: initial_def)

lemmas eval_order = post_orders_def select_product_for_update_def update_stock_def
  insert_order_def insert_order_item_def decrement_def

theorem order_placement_atomic_witness:
  "for_items quiet [\<lparr>productId = 1, quantity = 2\<rparr>] (initial shop) =
     Inr (next_state (initial shop) \<lparr>productId = 1, quantity = 2\<rparr> milk) \<and>
   first_row (products (work (next_state (initial shop) \<lparr>productId = 1, quantity = 2\<rparr> milk))) 7 = None \<and>
   fst (post_orders quiet shop
          (Array [\<lparr>productId = 1, quantity = 2\<rparr>, \<lparr>productId = 7, quantity = 1\<rparr>])) =
     \<lparr>status = 404, json = Error (Product_not_found_id 7)\<rparr> \<and>
   snd (post_orders quiet shop
          (Array [\<lparr>productId = 1, quantity = 2\<rparr>, \<lparr>productId = 7, quantity = 1\<rparr>])) = shop"
proof -
  let ?i1 = "\<lparr>productId = 1, quantity = 2\<rparr>"
  let ?i2 = "\<lparr>productId = 7, quantity = 1\<rparr>"
  let ?R = "post_orders quiet shop (Array [?i1, ?i2])"
  let ?s = "next_state (initial shop) ?i1 milk"
  have loop: "for_items quiet [?i1] (initial shop) = Inr ?s"
    by (simp add: eval_order next_state_def)
  have none: "first_row (products (work ?s)) 7 = None"
    by (simp add: first_row_def)
  have res: "fst ?R = \<lparr>status = 404, json = Error (Product_not_found_id 7)\<rparr>"
    by (simp add: eval_order)
  have eq: "?R = (fst ?R, snd ?R)"
    by simp
  have a1: "Array [?i1, ?i2] = Array ([?i1] @ ?i2 # [])"
    by simp
  have a3: "first_row (products (work ?s)) (productId ?i2) = None \<or>
      (\<exists>p. first_row (products (work ?s)) (productId ?i2) = Some p \<and>
         rat_of_int (p_stock p) < quantity ?i2)"
    using none by simp
  have "status (fst ?R) \<noteq> 200 \<and> snd ?R = shop"
    by (rule order_placement_atomic [OF eq, THEN conjunct2, rule_format,
          where pre = "[?i1]" and it = ?i2 and post = "[]" and s = ?s])
       (intro conjI a1 loop a3)
  with loop none res show ?thesis by (simp only: simp_thms)
qed

section \<open>Stock and rows of a placed order\<close>

text \<open>
  C2. When an order is placed (status 200), every product row keeps its fields but its
  stock, which goes down by the quantity requested of that product, summed over all the
  items that name it (the quantities are integers); with product ids unique (the primary
  key), the stock summed over all products goes down by the sum of the requested
  quantities; and the store gains exactly one order row and one order-item row per item
  of the request, in order, with the item's product and quantity, all pointing at that
  order.
\<close>

theorem order_decrements_stock:
  assumes "post_orders e db (Array its) = (res, db')"
    and "status res = 200"
    and "distinct (map p_id (products db))"
  shows "products db' =
           map (\<lambda>p. p\<lparr>p_stock := p_stock p - \<lfloor>requested (p_id p) its\<rfloor>\<rparr>) (products db) \<and>
         (\<forall>p \<in> set (products db). rat_of_int \<lfloor>requested (p_id p) its\<rfloor> = requested (p_id p) its) \<and>
         rat_of_int (sum_list (map p_stock (products db)) - sum_list (map p_stock (products db'))) =
           sum_list (map quantity its) \<and>
         (\<exists>ord rows.
            orders db' = orders db @ [ord] \<and>
            order_items db' = order_items db @ rows \<and>
            map oi_product_id rows = map productId its \<and>
            map (\<lambda>r. rat_of_int (oi_quantity r)) rows = map quantity its \<and>
            map oi_order_id rows = replicate (length its) (o_id ord))"
proof -
  from assms(1,2) obtain its' ord rows where
    its': "Array its = Array its'"
    and int: "\<forall>it \<in> set its'. is_integer (quantity it)"
    and found: "\<forall>it \<in> set its'. productId it \<in> p_id ` set (products db)"
    and prods: "products db' = decrement_all its' (products db)"
    and ords: "orders db' = orders db @ [ord]"
    and items: "order_items db' = order_items db @ rows"
    and r1: "map oi_product_id rows = map productId its'"
    and r2: "map oi_quantity rows = map (\<lambda>it. \<lfloor>quantity it\<rfloor>) its'"
    and r3: "map oi_order_id rows = replicate (length its') (o_id ord)"
    by (rule post_orders_200_store)
  from its' have [simp]: "its' = its" by simp
  let ?f = "\<lambda>p. \<lfloor>requested (p_id p) its\<rfloor>"
  have p: "products db' = map (\<lambda>p. p\<lparr>p_stock := p_stock p - ?f p\<rparr>) (products db)"
    using prods decrement_all_eq [of its "products db"] int by simp
  have i: "\<forall>p \<in> set (products db). rat_of_int \<lfloor>requested (p_id p) its\<rfloor> = requested (p_id p) its"
    using is_integer_requested [of its] int by (simp add: is_integer_def)
  have "sum_list (map p_stock (products db)) - sum_list (map p_stock (products db')) =
      (\<Sum>p\<leftarrow>products db. ?f p)"
    unfolding p by (rule sum_stock_decrement)
  also have "\<dots> = (\<Sum>it\<leftarrow>its. \<lfloor>quantity it\<rfloor>)"
    using sum_requested [OF assms(3), of its] int found by simp
  finally have "rat_of_int (sum_list (map p_stock (products db)) - sum_list (map p_stock (products db'))) =
      rat_of_int (\<Sum>q\<leftarrow>map quantity its. \<lfloor>q\<rfloor>)"
    by (simp add: comp_def)
  also have "\<dots> = sum_list (map quantity its)"
    using int by (intro sum_list_floor) simp
  finally have s: "rat_of_int (sum_list (map p_stock (products db)) - sum_list (map p_stock (products db'))) =
      sum_list (map quantity its)" .
  have "map (\<lambda>r. rat_of_int (oi_quantity r)) rows = map rat_of_int (map oi_quantity rows)"
    by simp
  also have "\<dots> = map (\<lambda>it. rat_of_int \<lfloor>quantity it\<rfloor>) its"
    unfolding r2 by simp
  also have "\<dots> = map quantity its"
    using int by (intro map_cong) (simp_all add: is_integer_def)
  finally have q: "map (\<lambda>r. rat_of_int (oi_quantity r)) rows = map quantity its" .
  from ords items r1 r3 q have
    "\<exists>ord rows.
            orders db' = orders db @ [ord] \<and>
            order_items db' = order_items db @ rows \<and>
            map oi_product_id rows = map productId its \<and>
            map (\<lambda>r. rat_of_int (oi_quantity r)) rows = map quantity its \<and>
            map oi_order_id rows = replicate (length its) (o_id ord)"
    by auto
  with p i s show ?thesis by blast
qed

theorem order_decrements_stock_witness:
  "status (fst (post_orders quiet shop
      (Array [\<lparr>productId = 1, quantity = 2\<rparr>, \<lparr>productId = 2, quantity = 1\<rparr>,
              \<lparr>productId = 1, quantity = 3\<rparr>]))) = 200 \<and>
   distinct (map p_id (products shop)) \<and>
   products (snd (post_orders quiet shop
      (Array [\<lparr>productId = 1, quantity = 2\<rparr>, \<lparr>productId = 2, quantity = 1\<rparr>,
              \<lparr>productId = 1, quantity = 3\<rparr>]))) =
     [milk\<lparr>p_stock := 45\<rparr>, bread\<lparr>p_stock := 99\<rparr>] \<and>
   sum_list (map p_stock (products shop)) -
     sum_list (map p_stock (products (snd (post_orders quiet shop
      (Array [\<lparr>productId = 1, quantity = 2\<rparr>, \<lparr>productId = 2, quantity = 1\<rparr>,
              \<lparr>productId = 1, quantity = 3\<rparr>]))))) = 6"
proof -
  let ?its = "[\<lparr>productId = 1, quantity = 2\<rparr>, \<lparr>productId = 2, quantity = 1\<rparr>,
              \<lparr>productId = 1, quantity = 3\<rparr>]"
  let ?R = "post_orders quiet shop (Array ?its)"
  have ok: "status (fst ?R) = 200"
    by (simp add: eval_order Let_def)
  have d: "distinct (map p_id (products shop))"
    by simp
  have eq: "?R = (fst ?R, snd ?R)"
    by simp
  note t = order_decrements_stock [OF eq ok d]
  have "products (snd ?R) =
      map (\<lambda>p. p\<lparr>p_stock := p_stock p - \<lfloor>requested (p_id p) ?its\<rfloor>\<rparr>) (products shop)"
    using t by (rule conjunct1)
  then have p: "products (snd ?R) = [milk\<lparr>p_stock := 45\<rparr>, bread\<lparr>p_stock := 99\<rparr>]"
    by (simp add: requested_def)
  have "rat_of_int (sum_list (map p_stock (products shop)) - sum_list (map p_stock (products (snd ?R)))) =
      sum_list (map quantity ?its)"
    using t by (elim conjE)
  then have "rat_of_int (sum_list (map p_stock (products shop)) - sum_list (map p_stock (products (snd ?R)))) =
      rat_of_int 6"
    by simp
  then have s: "sum_list (map p_stock (products shop)) - sum_list (map p_stock (products (snd ?R))) = 6"
    by (simp only: of_int_eq_iff)
  from ok d p s show ?thesis by (simp only: simp_thms)
qed

section \<open>Stock stays non-negative\<close>

lemma unique_row:
  assumes "distinct (map p_id rows)" "p \<in> set rows" "r \<in> set rows" "p_id r = p_id p"
  shows "r = p"
  using assms by (meson distinct_map inj_onD)

lemma decrement_nonneg:
  assumes "distinct (map p_id rows)"
    and "\<forall>r \<in> set rows. 0 \<le> p_stock r"
    and "select_product_for_update d pid = p # ps" "products d = rows"
    and "\<not> rat_of_int (p_stock p) < q"
    and "r \<in> set rows"
  shows "0 \<le> p_stock (decrement q pid r)"
proof (cases "p_id r = pid")
  case True
  from select_p_id [OF assms(3)] have p: "p_id p = pid" "p \<in> set rows"
    using assms(4) by simp_all
  with True assms(1,6) have "r = p"
    using unique_row [of rows p r] by simp
  moreover have "\<lfloor>q\<rfloor> \<le> p_stock p"
    using assms(5) by (simp add: floor_le_iff not_less)
  ultimately show ?thesis using True by (simp add: decrement_def)
next
  case False
  then show ?thesis using assms(2,6) by (simp add: decrement_def)
qed

lemma for_items_nonneg:
  assumes "for_items e its s = Inr s'"
    and "distinct (map p_id (products (work s)))"
    and "\<forall>r \<in> set (products (work s)). 0 \<le> p_stock r"
  shows "\<forall>r \<in> set (products (work s')). 0 \<le> p_stock r"
  using assms
proof (induction its arbitrary: s)
  case Nil
  then show ?case by simp
next
  case (Cons it rest)
  from Cons.prems(1) show ?case
  proof (rule for_items_Cons_Inr)
    fix p ps
    assume sel: "select_product_for_update (work s) (productId it) = p # ps"
      and le: "\<not> rat_of_int (p_stock p) < quantity it"
      and rest: "for_items e rest (next_state s it p) = Inr s'"
    have "distinct (map p_id (products (work (next_state s it p))))"
      using Cons.prems(2) by (simp add: comp_def)
    moreover have "\<forall>r \<in> set (products (work (next_state s it p))). 0 \<le> p_stock r"
      using decrement_nonneg [OF Cons.prems(2,3) sel refl le] by simp
    ultimately show ?thesis
      using Cons.IH [OF rest] by blast
  qed
qed

text \<open>
  C5. Stock never goes negative. With product ids unique (the primary key) and every
  stock non-negative before a request, every stock is non-negative after it, whatever the
  request (the same product may occur in several items: each occurrence is checked
  against the stock the earlier ones left), whichever statements the store rejects, and
  whether the request succeeds or fails.
\<close>

theorem stock_never_negative:
  assumes "post_orders e db items_in = (res, db')"
    and "distinct (map p_id (products db))"
    and "\<forall>p \<in> set (products db). 0 \<le> p_stock p"
  shows "\<forall>p \<in> set (products db'). 0 \<le> p_stock p"
proof (cases "status res = 200")
  case True
  from assms(1) True obtain its s where
    loop: "for_items e its (initial db) = Inr s"
    and ins: "for_orderItems e (gen_random_uuid e 0) (orderItems s) (Suc (issued s)) 0
       ((work s)\<lparr>orders := orders (work s) @
          [\<lparr>o_id = gen_random_uuid e 0, o_total = round_2dp (shortest_decimal (binary64 (total_acc s * binary64 (1 + taxRate)))),
            o_created_at = now e, o_pickup_code = pickupCode e\<rparr>]\<rparr>) = Some db'"
    by (rule post_orders_200)
  have "\<forall>r \<in> set (products (work s)). 0 \<le> p_stock r"
    using for_items_nonneg [OF loop] assms(2,3) by simp
  then show ?thesis
    using for_orderItems_tables [OF ins] by simp
next
  case False
  then show ?thesis
    using post_orders_not_200 [OF assms(1)] assms(3) by simp
qed

theorem stock_never_negative_witness:
  "distinct (map p_id (products shop)) \<and>
   list_all (\<lambda>p. 0 \<le> p_stock p) (products shop) \<and>
   products (snd (post_orders quiet shop
      (Array [\<lparr>productId = 1, quantity = 30\<rparr>, \<lparr>productId = 1, quantity = 20\<rparr>]))) =
     [milk\<lparr>p_stock := 0\<rparr>, bread] \<and>
   list_all (\<lambda>p. 0 \<le> p_stock p) (products (snd (post_orders quiet shop
      (Array [\<lparr>productId = 1, quantity = 30\<rparr>, \<lparr>productId = 1, quantity = 20\<rparr>]))))"
proof -
  let ?R = "post_orders quiet shop
      (Array [\<lparr>productId = 1, quantity = 30\<rparr>, \<lparr>productId = 1, quantity = 20\<rparr>])"
  have d: "distinct (map p_id (products shop))"
    by simp
  have n: "\<forall>p \<in> set (products shop). 0 \<le> p_stock p"
    by simp
  have eq: "?R = (fst ?R, snd ?R)"
    by simp
  have p: "products (snd ?R) = [milk\<lparr>p_stock := 0\<rparr>, bread]"
    by (simp add: eval_order Let_def)
  have "\<forall>p \<in> set (products (snd ?R)). 0 \<le> p_stock p"
    by (rule stock_never_negative [OF eq d n])
  then have "list_all (\<lambda>p. 0 \<le> p_stock p) (products (snd ?R))"
    by (simp only: list_all_iff)
  moreover have "list_all (\<lambda>p. 0 \<le> p_stock p) (products shop)"
    using n by (simp only: list_all_iff)
  ultimately show ?thesis using d p by (simp only: simp_thms)
qed

section \<open>The quantities that are persisted\<close>

text \<open>
  C7, as the code has it. The quantity of a persisted order item is an integer, the one
  the request gave: a request with a quantity that is not an integer is not accepted and
  leaves the store as it was, and an accepted request has only integer quantities, each
  persisted as given, in order. Nothing requires a quantity to be positive: zero and
  negative quantities are accepted and persisted.
\<close>

theorem persisted_quantities:
  assumes "post_orders e db (Array its) = (res, db')"
  shows "(status res = 200 \<longrightarrow>
            (\<forall>it \<in> set its. is_integer (quantity it)) \<and>
            (\<exists>rows. order_items db' = order_items db @ rows \<and>
               map (\<lambda>r. rat_of_int (oi_quantity r)) rows = map quantity its)) \<and>
         ((\<exists>it \<in> set its. \<not> is_integer (quantity it)) \<longrightarrow> status res \<noteq> 200 \<and> db' = db)"
proof -
  have a: "(\<forall>it \<in> set its. is_integer (quantity it)) \<and>
            (\<exists>rows. order_items db' = order_items db @ rows \<and>
               map (\<lambda>r. rat_of_int (oi_quantity r)) rows = map quantity its)"
    if ok: "status res = 200"
  proof -
    from assms ok obtain its' rows where
      its': "Array its = Array its'"
      and int: "\<forall>it \<in> set its'. is_integer (quantity it)"
      and items: "order_items db' = order_items db @ rows"
      and r2: "map oi_quantity rows = map (\<lambda>it. \<lfloor>quantity it\<rfloor>) its'"
      by (rule post_orders_200_store)
    from its' have [simp]: "its' = its" by simp
    have "map (\<lambda>r. rat_of_int (oi_quantity r)) rows = map rat_of_int (map oi_quantity rows)"
      by simp
    also have "\<dots> = map (\<lambda>it. rat_of_int \<lfloor>quantity it\<rfloor>) its"
      unfolding r2 by simp
    also have "\<dots> = map quantity its"
      using int by (intro map_cong) (simp_all add: is_integer_def)
    finally show ?thesis using int items by auto
  qed
  then have "status res \<noteq> 200" if "\<exists>it \<in> set its. \<not> is_integer (quantity it)"
    using that by blast
  then show ?thesis
    using a post_orders_not_200 [OF assms] by blast
qed

theorem persisted_quantities_witness:
  "status (fst (post_orders quiet shop (Array [\<lparr>productId = 1, quantity = 3 / 2\<rparr>]))) = 500 \<and>
   \<not> is_integer (quantity \<lparr>productId = 1, quantity = 3 / 2\<rparr>) \<and>
   snd (post_orders quiet shop (Array [\<lparr>productId = 1, quantity = 3 / 2\<rparr>])) = shop \<and>
   status (fst (post_orders quiet shop (Array [\<lparr>productId = 2, quantity = 4\<rparr>]))) = 200 \<and>
   map (\<lambda>r. rat_of_int (oi_quantity r))
     (order_items (snd (post_orders quiet shop (Array [\<lparr>productId = 2, quantity = 4\<rparr>])))) = [4]"
proof -
  let ?i = "\<lparr>productId = 1, quantity = 3 / 2\<rparr>"
  let ?R = "post_orders quiet shop (Array [?i])"
  let ?j = "\<lparr>productId = 2, quantity = 4\<rparr>"
  let ?S = "post_orders quiet shop (Array [?j])"
  have "\<lfloor>3 / 2 :: rat\<rfloor> = 1"
    by (rule floor_unique) simp_all
  then have n: "\<not> is_integer (quantity ?i)"
    by (simp add: is_integer_def)
  have st: "status (fst ?R) = 500"
    using n by (simp add: eval_order failed_to_create_order_def)
  have eq: "?R = (fst ?R, snd ?R)"
    by simp
  have "\<exists>it \<in> set [?i]. \<not> is_integer (quantity it)"
    using n by simp
  with persisted_quantities [OF eq] have un: "snd ?R = shop"
    by blast
  have ok: "status (fst ?S) = 200"
    by (simp add: eval_order Let_def)
  have eq': "?S = (fst ?S, snd ?S)"
    by simp
  from persisted_quantities [OF eq'] ok obtain rows where
    "order_items (snd ?S) = order_items shop @ rows"
    "map (\<lambda>r. rat_of_int (oi_quantity r)) rows = map quantity [?j]"
    by blast
  then have "map (\<lambda>r. rat_of_int (oi_quantity r)) (order_items (snd ?S)) = [4]"
    by simp
  with n st un ok show ?thesis by (simp only: simp_thms)
qed

text \<open>
  The claim as written, that every accepted item has a positive quantity, fails: an order
  of zero units and then of minus five units of milk is accepted, both rows are
  persisted, and the stock of milk rises from 50 to 55.
\<close>

theorem nonpositive_quantity_accepted:
  "status (fst (post_orders quiet shop
      (Array [\<lparr>productId = 1, quantity = 0\<rparr>, \<lparr>productId = 1, quantity = - 5\<rparr>]))) = 200 \<and>
   map oi_quantity (order_items (snd (post_orders quiet shop
      (Array [\<lparr>productId = 1, quantity = 0\<rparr>, \<lparr>productId = 1, quantity = - 5\<rparr>])))) = [0, - 5] \<and>
   \<not> 0 < quantity \<lparr>productId = 1, quantity = 0\<rparr> \<and>
   \<not> 0 < quantity \<lparr>productId = 1, quantity = - 5\<rparr> \<and>
   products (snd (post_orders quiet shop
      (Array [\<lparr>productId = 1, quantity = 0\<rparr>, \<lparr>productId = 1, quantity = - 5\<rparr>]))) =
     [milk\<lparr>p_stock := 55\<rparr>, bread]"
  by (simp add: eval_order Let_def)

section \<open>Insufficient stock\<close>

lemma first_row_Some_iff:
  "first_row (products d) pid = Some p \<longleftrightarrow> (\<exists>ps. select_product_for_update d pid = p # ps)"
  by (auto simp: first_row_def select_product_for_update_def split: list.splits)

lemma for_items_insufficient_here:
  assumes "\<not> throws e (issued s)"
    and "first_row (products (work s)) (productId it) = Some p"
    and "rat_of_int (p_stock p) < quantity it"
  shows "for_items e (it # post) s =
    Inl (Returned \<lparr>status = 400,
      json = Error (Insufficient_stock_for (p_name p) (p_stock p) (quantity it))\<rparr>)"
proof -
  from assms(2) obtain ps where "select_product_for_update (work s) (productId it) = p # ps"
    by (auto simp: first_row_Some_iff)
  then show ?thesis using assms(1,3) by simp
qed

lemma for_items_insufficient_found:
  assumes "for_items e its s = Inl (Returned res)" "is_insufficient_stock res"
  shows "\<exists>pre it post s1 p. its = pre @ it # post \<and> for_items e pre s = Inr s1 \<and>
     \<not> throws e (issued s1) \<and> first_row (products (work s1)) (productId it) = Some p \<and>
     rat_of_int (p_stock p) < quantity it"
  using assms
proof (induction its arbitrary: s)
  case Nil
  then show ?case by simp
next
  case (Cons it rest)
  have t: "\<not> throws e (issued s)"
    using Cons.prems(1) by (auto split: if_splits)
  show ?case
  proof (cases "select_product_for_update (work s) (productId it)")
    case Nil
    then have False
      using Cons.prems t by (auto simp: is_insufficient_stock_def)
    then show ?thesis ..
  next
    case (Cons p ps)
    then have fr: "first_row (products (work s)) (productId it) = Some p"
      by (auto simp: first_row_Some_iff)
    show ?thesis
    proof (cases "rat_of_int (p_stock p) < quantity it")
      case True
      have "it # rest = [] @ it # rest \<and> for_items e [] s = Inr s \<and>
         \<not> throws e (issued s) \<and> first_row (products (work s)) (productId it) = Some p \<and>
         rat_of_int (p_stock p) < quantity it"
        using t fr True by simp
      then show ?thesis by blast
    next
      case False
      have t1: "\<not> throws e (Suc (issued s))"
        using Cons.prems(1) t Cons False by (auto split: if_splits)
      have int: "is_integer (quantity it)"
        using Cons.prems(1) t Cons False t1 by (auto simp: update_stock_def split: if_splits)
      have step: "for_items e (it # rest) s = for_items e rest (next_state s it p)" for rest
        using for_items_Cons_ok [OF t Cons False t1 int] .
      then have "for_items e rest (next_state s it p) = Inl (Returned res)"
        using Cons.prems(1) by simp
      from Cons.IH [OF this Cons.prems(2)] obtain pre it' post s1 p' where
        r: "rest = pre @ it' # post" "for_items e pre (next_state s it p) = Inr s1"
        "\<not> throws e (issued s1)" "first_row (products (work s1)) (productId it') = Some p'"
        "rat_of_int (p_stock p') < quantity it'"
        by blast
      have "it # rest = (it # pre) @ it' # post \<and> for_items e (it # pre) s = Inr s1 \<and>
         \<not> throws e (issued s1) \<and> first_row (products (work s1)) (productId it') = Some p' \<and>
         rat_of_int (p_stock p') < quantity it'"
        using r step [of pre] by simp
      then show ?thesis by blast
    qed
  qed
qed

lemma is_insufficient_stock_simps [simp]:
  "is_insufficient_stock \<lparr>status = 400, json = Error (Insufficient_stock_for n a r)\<rparr>"
  "\<not> is_insufficient_stock \<lparr>status = 400, json = Error Invalid_items_data_provided\<rparr>"
  "\<not> is_insufficient_stock failed_to_create_order"
  "\<not> is_insufficient_stock \<lparr>status = 200, json = b\<rparr>"
  by (simp_all add: is_insufficient_stock_def failed_to_create_order_def)

lemma post_orders_insufficient_iff:
  "is_insufficient_stock (fst (post_orders e db (Array its))) \<longleftrightarrow>
   (\<exists>res. for_items e its (initial db) = Inl (Returned res) \<and> is_insufficient_stock res)"
proof (cases its)
  case Nil
  then show ?thesis by (simp add: post_orders_def)
next
  case (Cons it rest)
  show ?thesis
  proof (cases "for_items e its (initial db)")
    case (Inl a)
    then show ?thesis
      using Cons by (cases a) (simp_all add: post_orders_def initial_def)
  next
    case (Inr s)
    then show ?thesis
      using Cons
      by (simp add: post_orders_def initial_def Let_def split: prod.splits option.splits)
  qed
qed

lemma exact_stock_accepted:
  assumes "first_row (products db) (productId it) = Some p"
    and "quantity it = rat_of_int (p_stock p)"
    and "\<forall>k<4. \<not> throws e k"
  shows "status (fst (post_orders e db (Array [it]))) = 200 \<and>
    first_row (products (snd (post_orders e db (Array [it])))) (productId it) = Some (p\<lparr>p_stock := 0\<rparr>)"
proof -
  from assms(1) obtain ps where sel: "select_product_for_update db (productId it) = p # ps"
    by (auto simp: first_row_Some_iff)
  have pid: "p_id p = productId it"
    using select_p_id [OF sel] by simp
  have t: "\<not> throws e 0" "\<not> throws e (Suc 0)"
    "\<not> throws e (Suc (Suc 0))" "\<not> throws e (Suc (Suc (Suc 0)))"
    using assms(3) [rule_format, of 0] assms(3) [rule_format, of "Suc 0"]
      assms(3) [rule_format, of "Suc (Suc 0)"] assms(3) [rule_format, of "Suc (Suc (Suc 0))"]
    by simp_all
  have loop: "for_items e [it] (initial db) = Inr (next_state (initial db) it p)"
    using for_items_Cons_ok [of e "initial db" it p ps "[]"] sel t assms(2) by simp
  have "first_row (map (decrement (quantity it) (productId it)) (products db)) (productId it) =
      Some (decrement (quantity it) (productId it) p)"
    using assms(1) by (simp add: first_row_decrement)
  also have "decrement (quantity it) (productId it) p = p\<lparr>p_stock := 0\<rparr>"
    using pid assms(2) by (simp add: decrement_def)
  finally have fr: "first_row (map (decrement (quantity it) (productId it)) (products db)) (productId it) =
      Some (p\<lparr>p_stock := 0\<rparr>)" .
  have "post_orders e db (Array [it]) =
    (\<lparr>status = 200,
       json = Order_created (gen_random_uuid e 0) (toFixed2 (binary64 (total_acc (next_state (initial db) it p) * binary64 (1 + taxRate))))
                (pickupCode e) (orderItems (next_state (initial db) it p))\<rparr>,
     (work (next_state (initial db) it p))
      \<lparr>orders := orders db @
          [\<lparr>o_id = gen_random_uuid e 0,
            o_total = round_2dp (shortest_decimal (binary64 (total_acc (next_state (initial db) it p) * binary64 (1 + taxRate)))),
            o_created_at = now e, o_pickup_code = pickupCode e\<rparr>],
       order_items := order_items db @
          [\<lparr>oi_id = gen_random_uuid e (Suc 0), oi_order_id = gen_random_uuid e 0,
            oi_product_id = p_id p, oi_quantity = \<lfloor>quantity it\<rfloor>\<rparr>]\<rparr>)"
    unfolding post_orders_def
    using loop [unfolded initial_def] t assms(2)
    by (simp add: initial_def [symmetric] insert_order_def insert_order_item_def Let_def
        del: for_items.simps)
  then show ?thesis
    using fr by simp
qed

text \<open>
  C4. A request is answered with status 400 and the insufficient-stock error exactly when
  the loop reaches, after a run of items that all passed, an item whose quantity is
  strictly above the stock its product has at that moment (that is, after the updates of
  the items before it); the store is then left as it was. The comparison is strict: one
  item asking for exactly the stock of its product is accepted when the store rejects no
  statement, and leaves that product with stock 0.
\<close>

theorem insufficient_stock_rejected:
  "(is_insufficient_stock (fst (post_orders e db (Array its))) \<longleftrightarrow>
      (\<exists>pre it post s p.
         its = pre @ it # post \<and>
         for_items e pre (initial db) = Inr s \<and>
         \<not> throws e (issued s) \<and>
         first_row (products (work s)) (productId it) = Some p \<and>
         rat_of_int (p_stock p) < quantity it)) \<and>
   (is_insufficient_stock (fst (post_orders e db (Array its))) \<longrightarrow>
      snd (post_orders e db (Array its)) = db) \<and>
   (\<forall>it p.
      its = [it] \<and> first_row (products db) (productId it) = Some p \<and>
      quantity it = rat_of_int (p_stock p) \<and> (\<forall>k<4. \<not> throws e k) \<longrightarrow>
      status (fst (post_orders e db (Array its))) = 200 \<and>
      first_row (products (snd (post_orders e db (Array its)))) (productId it) =
        Some (p\<lparr>p_stock := 0\<rparr>))"
proof (intro conjI)
  show "is_insufficient_stock (fst (post_orders e db (Array its))) \<longleftrightarrow>
      (\<exists>pre it post s p.
         its = pre @ it # post \<and>
         for_items e pre (initial db) = Inr s \<and>
         \<not> throws e (issued s) \<and>
         first_row (products (work s)) (productId it) = Some p \<and>
         rat_of_int (p_stock p) < quantity it)"
    (is "?L \<longleftrightarrow> ?R")
  proof
    assume ?L
    then obtain res where "for_items e its (initial db) = Inl (Returned res)"
      "is_insufficient_stock res"
      by (auto simp: post_orders_insufficient_iff)
    then show ?R by (rule for_items_insufficient_found)
  next
    assume ?R
    then obtain pre it post s p where r: "its = pre @ it # post"
      "for_items e pre (initial db) = Inr s" "\<not> throws e (issued s)"
      "first_row (products (work s)) (productId it) = Some p"
      "rat_of_int (p_stock p) < quantity it"
      by blast
    have "for_items e its (initial db) = for_items e (it # post) s"
      using r(1,2) by (simp add: for_items_append del: for_items.simps)
    also have "\<dots> = Inl (Returned \<lparr>status = 400,
        json = Error (Insufficient_stock_for (p_name p) (p_stock p) (quantity it))\<rparr>)"
      using r(3,4,5) by (rule for_items_insufficient_here)
    finally show ?L
      unfolding post_orders_insufficient_iff by simp
  qed
next
  show "is_insufficient_stock (fst (post_orders e db (Array its))) \<longrightarrow>
      snd (post_orders e db (Array its)) = db"
  proof
    assume "is_insufficient_stock (fst (post_orders e db (Array its)))"
    then have "status (fst (post_orders e db (Array its))) \<noteq> 200"
      by (simp add: is_insufficient_stock_def)
    then show "snd (post_orders e db (Array its)) = db"
      using post_orders_not_200 [of e db "Array its"] by (metis prod.collapse)
  qed
next
  show "\<forall>it p.
      its = [it] \<and> first_row (products db) (productId it) = Some p \<and>
      quantity it = rat_of_int (p_stock p) \<and> (\<forall>k<4. \<not> throws e k) \<longrightarrow>
      status (fst (post_orders e db (Array its))) = 200 \<and>
      first_row (products (snd (post_orders e db (Array its)))) (productId it) =
        Some (p\<lparr>p_stock := 0\<rparr>)"
    using exact_stock_accepted by blast
qed

theorem insufficient_stock_rejected_witness:
  "fst (post_orders quiet shop
      (Array [\<lparr>productId = 1, quantity = 50\<rparr>, \<lparr>productId = 1, quantity = 1\<rparr>])) =
     \<lparr>status = 400, json = Error (Insufficient_stock_for ''Milk'' 0 1)\<rparr> \<and>
   snd (post_orders quiet shop
      (Array [\<lparr>productId = 1, quantity = 50\<rparr>, \<lparr>productId = 1, quantity = 1\<rparr>])) = shop \<and>
   first_row (products shop) 1 = Some milk \<and>
   status (fst (post_orders quiet shop (Array [\<lparr>productId = 1, quantity = 50\<rparr>]))) = 200 \<and>
   first_row (products (snd (post_orders quiet shop (Array [\<lparr>productId = 1, quantity = 50\<rparr>])))) 1 =
     Some (milk\<lparr>p_stock := 0\<rparr>)"
proof -
  let ?i = "\<lparr>productId = 1, quantity = 50\<rparr>"
  let ?j = "\<lparr>productId = 1, quantity = 1\<rparr>"
  let ?R = "post_orders quiet shop (Array [?i, ?j])"
  let ?S = "post_orders quiet shop (Array [?i])"
  have res: "fst ?R = \<lparr>status = 400, json = Error (Insufficient_stock_for ''Milk'' 0 1)\<rparr>"
    by (simp add: eval_order)
  then have ins: "is_insufficient_stock (fst ?R)"
    by simp
  have same: "snd ?R = shop"
    using insufficient_stock_rejected [of quiet shop "[?i, ?j]"] ins by blast
  have fr: "first_row (products shop) 1 = Some milk"
    by (simp add: first_row_def)
  have pre: "[?i] = [?i] \<and> first_row (products shop) (productId ?i) = Some milk \<and>
      quantity ?i = rat_of_int (p_stock milk) \<and> (\<forall>k<4. \<not> throws quiet k)"
    using fr by simp
  have "status (fst ?S) = 200 \<and>
      first_row (products (snd ?S)) (productId ?i) = Some (milk\<lparr>p_stock := 0\<rparr>)"
    using insufficient_stock_rejected [of quiet shop "[?i]", THEN conjunct2, THEN conjunct2,
        rule_format, of ?i milk, OF pre] .
  then have "status (fst ?S) = 200" "first_row (products (snd ?S)) 1 = Some (milk\<lparr>p_stock := 0\<rparr>)"
    by simp_all
  with res same fr show ?thesis by (simp only: simp_thms)
qed

section \<open>Lookup by barcode\<close>

lemma barcode_in_map_filter:
  "p \<in> set rows \<Longrightarrow> p_barcode p = Some b \<Longrightarrow> b \<in> set (List.map_filter p_barcode rows)"
  by (force simp: List.map_filter_def)

lemma unique_barcode_filter:
  "distinct (List.map_filter p_barcode rows) \<Longrightarrow>
   filter (\<lambda>p. p_barcode p = Some b) rows = p # ps \<Longrightarrow> ps = []"
proof (induction rows)
  case Nil
  then show ?case by simp
next
  case (Cons r rows)
  show ?case
  proof (cases "p_barcode r = Some b")
    case True
    then have "b \<notin> set (List.map_filter p_barcode rows)"
      using Cons.prems(1) by simp
    then have "filter (\<lambda>p. p_barcode p = Some b) rows = []"
      using barcode_in_map_filter [of _ rows b] by (auto simp: filter_empty_conv)
    then show ?thesis using Cons.prems(2) True by simp
  next
    case False
    have "distinct (List.map_filter p_barcode rows)"
      using Cons.prems(1) by (simp split: option.splits)
    then show ?thesis using Cons.IH Cons.prems(2) False by simp
  qed
qed

text \<open>
  C8. When the store answers the query, the lookup by barcode returns status 404 with the
  error \<^verbatim>\<open>Product not found\<close> if and only if no product has the barcode; otherwise it
  returns, with status 200, a product of the store that has the barcode, and under the
  \<^verbatim>\<open>UNIQUE\<close> constraint on barcodes that product is the only one.
\<close>

theorem barcode_lookup:
  assumes "\<not> throws e 0"
  shows "(status (get_product_by_barcode e db b) = 404 \<longleftrightarrow>
            (\<forall>p \<in> set (products db). p_barcode p \<noteq> Some b)) \<and>
         (status (get_product_by_barcode e db b) = 404 \<longrightarrow>
            json (get_product_by_barcode e db b) = Error Product_not_found) \<and>
         ((\<exists>p \<in> set (products db). p_barcode p = Some b) \<longrightarrow>
            (\<exists>p \<in> set (products db). p_barcode p = Some b \<and>
               get_product_by_barcode e db b = \<lparr>status = 200, json = Product_row p\<rparr> \<and>
               (unique_barcodes db \<longrightarrow> select_by_barcode db b = [p])))"
proof (cases "select_by_barcode db b")
  case Nil
  then have "\<forall>p \<in> set (products db). p_barcode p \<noteq> Some b"
    by (simp add: select_by_barcode_def filter_empty_conv)
  then show ?thesis
    using Nil assms by (simp add: get_product_by_barcode_def)
next
  case (Cons p ps)
  then have "p \<in> set (filter (\<lambda>p. p_barcode p = Some b) (products db))"
    by (simp add: select_by_barcode_def)
  then have p: "p \<in> set (products db)" "p_barcode p = Some b"
    by simp_all
  have "ps = []" if "unique_barcodes db"
    using that Cons unique_barcode_filter [of "products db" b p ps]
    by (simp add: unique_barcodes_def select_by_barcode_def)
  then show ?thesis
    using Cons assms p by (auto simp: get_product_by_barcode_def)
qed

theorem barcode_lookup_witness:
  "\<not> throws quiet 0 \<and> unique_barcodes shop \<and>
   get_product_by_barcode quiet shop ''9999999999'' =
     \<lparr>status = 404, json = Error Product_not_found\<rparr> \<and>
   get_product_by_barcode quiet shop ''1234567890'' = \<lparr>status = 200, json = Product_row milk\<rparr> \<and>
   select_by_barcode shop ''1234567890'' = [milk]"
proof -
  have t: "\<not> throws quiet 0"
    by simp
  have u: "unique_barcodes shop"
    by (simp add: unique_barcodes_def)
  have none: "\<forall>p \<in> set (products shop). p_barcode p \<noteq> Some ''9999999999''"
    by simp
  have "status (get_product_by_barcode quiet shop ''9999999999'') = 404"
    using barcode_lookup [OF t, of shop "''9999999999''"] none by blast
  moreover have "json (get_product_by_barcode quiet shop ''9999999999'') = Error Product_not_found"
    using barcode_lookup [OF t, of shop "''9999999999''"] calculation by blast
  ultimately have a: "get_product_by_barcode quiet shop ''9999999999'' =
      \<lparr>status = 404, json = Error Product_not_found\<rparr>"
    by (cases "get_product_by_barcode quiet shop ''9999999999''") simp
  have some: "\<exists>p \<in> set (products shop). p_barcode p = Some ''1234567890''"
    by simp
  from barcode_lookup [OF t, of shop "''1234567890''"] some u obtain p where
    p: "p \<in> set (products shop)" "p_barcode p = Some ''1234567890''"
    "get_product_by_barcode quiet shop ''1234567890'' = \<lparr>status = 200, json = Product_row p\<rparr>"
    "select_by_barcode shop ''1234567890'' = [p]"
    by blast
  from p(1,2) have "p = milk"
    by auto
  with t u a p(3,4) show ?thesis by (simp only: simp_thms)
qed

section \<open>Seeding\<close>

lemma do_update_simps [simp]:
  "p_id (do_update v p) = p_id p"
  "p_name (do_update v p) = p_name p"
  by (simp_all add: do_update_def split: prod.splits)

lemma do_update_other:
  "p_name p \<noteq> fst v \<Longrightarrow> do_update v p = p"
  by (cases v) (simp add: do_update_def)

lemma do_update_same:
  "p_name p = fst v \<Longrightarrow>
   p_price (do_update v p) = fst (snd v) \<and> p_stock (do_update v p) = fst (snd (snd v)) \<and>
   p_barcode (do_update v p) = Some (snd (snd (snd v)))"
  by (simp add: do_update_def split: prod.splits)

lemma upsert_eq:
  "upsert e k v rows =
     map (do_update v) rows @
     (if fst v \<in> p_name ` set rows then []
      else [\<lparr>p_id = gen_random_uuid e k, p_name = fst v, p_price = fst (snd v),
              p_stock = fst (snd (snd v)), p_barcode = Some (snd (snd (snd v)))\<rparr>])"
proof (cases "fst v \<in> p_name ` set rows")
  case True
  then show ?thesis by (cases v) (simp add: upsert_def)
next
  case False
  then have "\<forall>p \<in> set rows. p_name p \<noteq> fst v"
    by (metis imageI)
  then have "map (do_update v) rows = rows"
    by (intro map_idI do_update_other) simp
  then show ?thesis using False by (cases v) (simp add: upsert_def)
qed

lemma holds_seed_iff:
  "holds_seed v rows \<longleftrightarrow>
     (\<exists>p \<in> set rows. p_name p = fst v) \<and>
     (\<forall>p \<in> set rows. p_name p = fst v \<longrightarrow>
        p_price p = fst (snd v) \<and> p_stock p = fst (snd (snd v)) \<and>
        p_barcode p = Some (snd (snd (snd v))))"
  by (simp add: holds_seed_def split: prod.splits)

lemma holds_seed_upsert: "holds_seed v (upsert e k v rows)"
  unfolding holds_seed_iff upsert_eq
  using do_update_same [of _ v] by (auto simp: image_iff)

lemma holds_seed_upsert_other:
  assumes "fst w \<noteq> fst v" "holds_seed v rows"
  shows "holds_seed v (upsert e k w rows)"
proof -
  have "do_update w p = p" if "p_name p = fst v" for p
    using that assms(1) by (simp add: do_update_other)
  moreover have "p_name (do_update w p) = fst v \<Longrightarrow> do_update w p = p" for p
    using assms(1) by (simp add: do_update_other)
  ultimately show ?thesis
    using assms unfolding holds_seed_iff upsert_eq
    by (auto simp: image_iff)
qed

lemma holds_seed_preserved:
  "fst v \<notin> fst ` set vs \<Longrightarrow> holds_seed v rows \<Longrightarrow>
   holds_seed v (insert_on_conflict e k vs rows)"
proof (induction vs arbitrary: k rows)
  case Nil
  then show ?case by simp
next
  case (Cons w vs)
  have "holds_seed v (upsert e k w rows)"
    using Cons.prems by (intro holds_seed_upsert_other) auto
  then show ?case using Cons.IH Cons.prems(1) by simp
qed

lemma holds_seed_insert_on_conflict:
  "distinct (map fst vs) \<Longrightarrow> v \<in> set vs \<Longrightarrow> holds_seed v (insert_on_conflict e k vs rows)"
proof (induction vs arbitrary: k rows)
  case Nil
  then show ?case by simp
next
  case (Cons w vs)
  show ?case
  proof (cases "v = w")
    case True
    have "fst v \<notin> fst ` set vs" using Cons.prems(1) True by simp
    then show ?thesis
      using holds_seed_preserved [of v vs "upsert e k v rows"] holds_seed_upsert True by simp
  next
    case False
    then show ?thesis using Cons by simp
  qed
qed

lemma upsert_unchanged:
  assumes "holds_seed v rows"
  shows "upsert e k v rows = rows"
proof -
  have "do_update v p = p" if "p \<in> set rows" for p
    using assms that unfolding holds_seed_iff
    by (cases "p_name p = fst v") (auto simp: do_update_def split: prod.splits)
  then have "map (do_update v) rows = rows"
    by (intro map_idI)
  moreover have "fst v \<in> p_name ` set rows"
    using assms unfolding holds_seed_iff by force
  ultimately show ?thesis by (simp add: upsert_eq)
qed

lemma insert_on_conflict_unchanged:
  "\<forall>v \<in> set vs. holds_seed v rows \<Longrightarrow> insert_on_conflict e k vs rows = rows"
  by (induction vs arbitrary: k) (simp_all add: upsert_unchanged)

lemma distinct_names_upsert:
  "distinct (map p_name rows) \<Longrightarrow> distinct (map p_name (upsert e k v rows))"
  by (auto simp: upsert_eq comp_def)

lemma distinct_names_insert_on_conflict:
  "distinct (map p_name rows) \<Longrightarrow> distinct (map p_name (insert_on_conflict e k vs rows))"
  by (induction vs arbitrary: k rows) (simp_all add: distinct_names_upsert)

lemma filter_distinct_single:
  "distinct (map f xs) \<Longrightarrow> x \<in> set xs \<Longrightarrow> filter (\<lambda>y. f y = f x) xs = [x]"
proof (induction xs)
  case Nil
  then show ?case by simp
next
  case (Cons a xs)
  show ?case
  proof (cases "a = x")
    case True
    then have "f x \<notin> f ` set xs" using Cons.prems(1) by simp
    then have "\<forall>y \<in> set xs. f y \<noteq> f x"
      by (metis imageI)
    then have "filter (\<lambda>y. f y = f x) xs = []"
      by (simp add: filter_empty_conv)
    then show ?thesis using True by simp
  next
    case False
    then have "x \<in> set xs" using Cons.prems(2) by simp
    then have "f a \<noteq> f x" using Cons.prems(1) by force
    then show ?thesis using Cons \<open>x \<in> set xs\<close> by simp
  qed
qed


lemma fold_do_update_simps [simp]:
  "p_id (fold do_update vs p) = p_id p"
  "p_name (fold do_update vs p) = p_name p"
  by (induction vs arbitrary: p) simp_all


lemma soda_simps [simp]:
  "p_id soda = 3" "p_name soda = ''Soda''" "p_price soda = 1" "p_stock soda = 10"
  "p_barcode soda = None"
  by (simp_all add: soda_def)

lemma after_sale_simps [simp]:
  "products after_sale = [milk\<lparr>p_stock := 48\<rparr>, soda]" "orders after_sale = []"
  "order_items after_sale = []"
  by (simp_all add: after_sale_def)

lemma distinct_sample_names: "distinct (map fst sample_products)"
  by (simp add: sample_products_def)

lemma initDB_Inr:
  "initDB e db = Inr db1 \<Longrightarrow>
   db1 = db\<lparr>products := insert_on_conflict e 0 sample_products (products db)\<rparr>"
  by (simp add: initDB_def split: if_splits)


lemma initDB_after_sale: "initDB quiet after_sale = Inr restarted"
  by (simp add: initDB_def sample_products_def upsert_def do_update_def after_sale_def
      restarted_def milk_def soda_def)


text \<open>
  C9. Seeding is idempotent. After a seeding step that completed, a second one that the
  store does not reject leaves the store exactly as the first one left it; the table then
  holds every sample product with its seed price, stock and barcode, and, names being
  unique in the table before (the \<^verbatim>\<open>UNIQUE\<close> constraint on \<^verbatim>\<open>name\<close>), in exactly one row.
\<close>

theorem seeding_idempotent:
  assumes "initDB e db = Inr db1"
    and "\<not> (throws e' 0 \<or> throws e' 1 \<or> throws e' 2 \<or> throws e' 3)"
  shows "initDB e' db1 = Inr db1 \<and>
         (\<forall>v \<in> set sample_products. holds_seed v (products db1)) \<and>
         (distinct (map p_name (products db)) \<longrightarrow>
            (\<forall>v \<in> set sample_products.
               \<exists>p. filter (\<lambda>r. p_name r = fst v) (products db1) = [p]))"
proof -
  have db1: "db1 = db\<lparr>products := insert_on_conflict e 0 sample_products (products db)\<rparr>"
    using assms(1) by (rule initDB_Inr)
  have h: "\<forall>v \<in> set sample_products. holds_seed v (products db1)"
    using holds_seed_insert_on_conflict [OF distinct_sample_names] db1 by simp
  then have "insert_on_conflict e' 0 sample_products (products db1) = products db1"
    by (rule insert_on_conflict_unchanged)
  then have a: "initDB e' db1 = Inr db1"
    using assms(2) by (simp add: initDB_def)
  have "\<exists>p. filter (\<lambda>r. p_name r = fst v) (products db1) = [p]"
    if d: "distinct (map p_name (products db))" and v: "v \<in> set sample_products" for v
  proof -
    have "distinct (map p_name (products db1))"
      using d db1 by (simp add: distinct_names_insert_on_conflict)
    moreover obtain p where "p \<in> set (products db1)" "p_name p = fst v"
      using h v unfolding holds_seed_iff by blast
    ultimately show ?thesis
      using filter_distinct_single [of p_name "products db1" p] by auto
  qed
  with a h show ?thesis by blast
qed

theorem seeding_idempotent_witness:
  "initDB quiet after_sale = Inr restarted \<and>
   \<not> (throws quiet 0 \<or> throws quiet 1 \<or> throws quiet 2 \<or> throws quiet 3) \<and>
   initDB quiet restarted = Inr restarted \<and>
   distinct (map p_name (products after_sale)) \<and>
   length (products restarted) = 10 \<and>
   filter (\<lambda>r. p_name r = ''Milk'') (products restarted) = [milk]"
proof -
  have q: "\<not> (throws quiet 0 \<or> throws quiet 1 \<or> throws quiet 2 \<or> throws quiet 3)"
    by simp
  note t = seeding_idempotent [OF initDB_after_sale q]
  have d: "distinct (map p_name (products after_sale))"
    by simp
  have "(''Milk'', 3, 50, ''1234567890'') \<in> set sample_products"
    by (simp add: sample_products_def)
  with t d obtain p where p: "filter (\<lambda>r. p_name r = fst (''Milk'', 3 :: rat, 50 :: int, ''1234567890''))
      (products restarted) = [p]"
    by blast
  have "milk \<in> set (filter (\<lambda>r. p_name r = ''Milk'') (products restarted))"
    by (simp add: restarted_def)
  with p have f: "filter (\<lambda>r. p_name r = ''Milk'') (products restarted) = [milk]"
    by simp
  have l: "length (products restarted) = 10"
    by (simp add: restarted_def)
  from t have "initDB quiet restarted = Inr restarted"
    by blast
  with initDB_after_sale q d l f show ?thesis by (simp only: simp_thms)
qed

section \<open>The text of the total\<close>

lemma digit_cases:
  assumes "d < (10::nat)"
  obtains "d = 0" | "d = 1" | "d = 2" | "d = 3" | "d = 4" | "d = 5" | "d = 6" | "d = 7"
    | "d = 8" | "d = 9"
  using assms by atomize_elim arith

lemma digit_char_digit:
  "d < 10 \<Longrightarrow> is_digit (digit_char d) \<and> digit_value (digit_char d) = d"
  by (erule digit_cases) (simp_all add: digit_char_def is_digit_def digit_value_def)

lemma digit_char_0 [simp]: "digit_char 0 = CHR ''0''"
  by (simp add: digit_char_def)

lemma decimal_digits: "list_all is_digit (decimal n) \<and> decimal n \<noteq> []"
proof (induction n rule: decimal.induct)
  case (1 n)
  show ?case
  proof (cases "n < 10")
    case True
    then show ?thesis by (simp add: decimal_small digit_char_digit)
  next
    case False
    then show ?thesis using 1 by (simp add: decimal_large digit_char_digit)
  qed
qed

lemma digits_value_snoc: "digits_value (s @ [c]) = 10 * digits_value s + digit_value c"
  by (simp add: digits_value_def)

lemma digits_value_decimal: "digits_value (decimal n) = n"
proof (induction n rule: decimal.induct)
  case (1 n)
  show ?case
  proof (cases "n < 10")
    case True
    then show ?thesis by (simp add: decimal_small digits_value_def digit_char_digit)
  next
    case False
    then show ?thesis using 1 by (simp add: decimal_large digits_value_snoc digit_char_digit)
  qed
qed

lemma decimal_two_digits:
  "replicate (3 - length (decimal n)) (CHR ''0'') @ decimal n =
   decimal (n div 100) @ [digit_char (n div 10 mod 10), digit_char (n mod 10)]"
proof -
  consider "n < 10" | "10 \<le> n" "n < 100" | "100 \<le> n" by linarith
  then show ?thesis
  proof cases
    case 1
    then show ?thesis by (simp add: decimal_small numeral_3_eq_3)
  next
    case 2
    then have "n div 10 < 10" by simp
    then show ?thesis using 2 by (simp add: decimal_large decimal_small)
  next
    case 3
    then have a: "10 \<le> n" "10 \<le> n div 10" by simp_all
    have "decimal n = decimal (n div 10) @ [digit_char (n mod 10)]"
      using a(1) by (rule decimal_large)
    also have "decimal (n div 10) = decimal (n div 10 div 10) @ [digit_char (n div 10 mod 10)]"
      using a(2) by (rule decimal_large)
    finally have d: "decimal n = decimal (n div 100) @ [digit_char (n div 10 mod 10), digit_char (n mod 10)]"
      by (simp add: div_mult2_eq [symmetric])
    have "decimal (n div 100) \<noteq> []" using decimal_digits by simp
    then have "3 \<le> length (decimal n)"
      unfolding d by (cases "decimal (n div 100)") simp_all
    then show ?thesis using d by simp
  qed
qed

lemma toFixed2_Text:
  assumes "\<bar>x\<bar> < 10 ^ 21"
  shows "toFixed2 x =
    Text ((if x < 0 then ''-'' else '''') @ decimal (nat \<lfloor>\<bar>x\<bar> * 100 + 1 / 2\<rfloor> div 100) @ ''.'' @
      [digit_char (nat \<lfloor>\<bar>x\<bar> * 100 + 1 / 2\<rfloor> div 10 mod 10),
       digit_char (nat \<lfloor>\<bar>x\<bar> * 100 + 1 / 2\<rfloor> mod 10)])"
proof -
  let ?n = "nat \<lfloor>\<bar>x\<bar> * 100 + 1 / 2\<rfloor>"
  have "toFixed2 x = Text ((if x < 0 then ''-'' else '''') @
      take (length (replicate (3 - length (decimal ?n)) (CHR ''0'') @ decimal ?n) - 2)
        (replicate (3 - length (decimal ?n)) (CHR ''0'') @ decimal ?n) @ ''.'' @
      drop (length (replicate (3 - length (decimal ?n)) (CHR ''0'') @ decimal ?n) - 2)
        (replicate (3 - length (decimal ?n)) (CHR ''0'') @ decimal ?n))"
    using assms by (simp add: toFixed2_def Let_def)
  then show ?thesis
    unfolding decimal_two_digits by simp
qed

lemma not_digit [simp]: "\<not> is_digit (CHR ''.'')" "\<not> is_digit (CHR ''-'')"
  by (simp_all add: is_digit_def)

lemma read_2dp_digits:
  assumes "list_all is_digit w" "w \<noteq> []" "is_digit a" "is_digit b"
  shows "read_2dp (w @ ''.'' @ [a, b]) = Some (rat_of_nat (digits_value (w @ [a, b])) / 100)"
    and "read_2dp (''-'' @ w @ ''.'' @ [a, b]) = Some (- rat_of_nat (digits_value (w @ [a, b])) / 100)"
proof -
  have w: "\<forall>c \<in> set w. is_digit c"
    using assms(1) by (simp add: list_all_iff)
  have t: "takeWhile is_digit (w @ CHR ''.'' # [a, b]) = w"
    using w by simp
  have d: "dropWhile is_digit (w @ CHR ''.'' # [a, b]) = CHR ''.'' # [a, b]"
    using w by simp
  have "is_digit (hd w)"
    using w assms(2) by simp
  then have h: "hd w \<noteq> CHR ''-''"
    by auto
  show "read_2dp (w @ ''.'' @ [a, b]) = Some (rat_of_nat (digits_value (w @ [a, b])) / 100)"
    using t d h assms(2,3,4) by (simp add: read_2dp_def Let_def hd_append)
  show "read_2dp (''-'' @ w @ ''.'' @ [a, b]) = Some (- rat_of_nat (digits_value (w @ [a, b])) / 100)"
    using t d assms(2,3,4) by (simp add: read_2dp_def Let_def)
qed

lemma digits_value_two_more:
  "digits_value (decimal (n div 100) @ [digit_char (n div 10 mod 10), digit_char (n mod 10)]) = n"
proof -
  have "digits_value (decimal (n div 100) @ [digit_char (n div 10 mod 10), digit_char (n mod 10)]) =
      digits_value ((decimal (n div 100) @ [digit_char (n div 10 mod 10)]) @ [digit_char (n mod 10)])"
    by simp
  also have "\<dots> = 10 * (10 * (n div 100) + n div 10 mod 10) + n mod 10"
    by (simp only: digits_value_snoc digits_value_decimal) (simp add: digit_char_digit)
  also have "\<dots> = 10 * (10 * (n div 10 div 10) + n div 10 mod 10) + n mod 10"
    by (simp add: div_mult2_eq [symmetric])
  also have "\<dots> = 10 * (n div 10) + n mod 10"
    by (simp only: mult_div_mod_eq)
  also have "\<dots> = n"
    by (simp only: mult_div_mod_eq)
  finally show ?thesis .
qed

lemma read_2dp_toFixed2:
  assumes "\<bar>x\<bar> < 10 ^ 21"
  shows "\<exists>s. toFixed2 x = Text s \<and> read_2dp s = Some (round_2dp x)"
proof -
  let ?n = "nat \<lfloor>\<bar>x\<bar> * 100 + 1 / 2\<rfloor>"
  let ?w = "decimal (?n div 100)"
  let ?a = "digit_char (?n div 10 mod 10)"
  let ?b = "digit_char (?n mod 10)"
  have dig: "list_all is_digit ?w" "?w \<noteq> []" "is_digit ?a" "is_digit ?b"
    using decimal_digits [of "?n div 100"] by (simp_all add: digit_char_digit)
  have "0 \<le> \<lfloor>\<bar>x\<bar> * 100 + 1 / 2\<rfloor>"
    by simp
  then have n: "rat_of_nat ?n = rat_of_int \<lfloor>\<bar>x\<bar> * 100 + 1 / 2\<rfloor>"
    by (metis of_nat_nat)
  have v: "rat_of_nat (digits_value (?w @ [?a, ?b])) = rat_of_int \<lfloor>\<bar>x\<bar> * 100 + 1 / 2\<rfloor>"
    by (simp only: digits_value_two_more n)
  show ?thesis
  proof (cases "x < 0")
    case True
    have "toFixed2 x = Text (''-'' @ ?w @ ''.'' @ [?a, ?b])"
      using toFixed2_Text [OF assms] True by simp
    moreover have "read_2dp (''-'' @ ?w @ ''.'' @ [?a, ?b]) = Some (round_2dp x)"
      unfolding read_2dp_digits(2) [OF dig] v using True by (simp add: round_2dp_def)
    ultimately show ?thesis by blast
  next
    case False
    have "toFixed2 x = Text (?w @ ''.'' @ [?a, ?b])"
      using toFixed2_Text [OF assms] False by simp
    moreover have "read_2dp (?w @ ''.'' @ [?a, ?b]) = Some (round_2dp x)"
      unfolding read_2dp_digits(1) [OF dig] v using False by (simp add: round_2dp_def)
    ultimately show ?thesis by blast
  qed
qed

lemma is_integer_mult:
  "is_integer q \<Longrightarrow> is_integer r \<Longrightarrow> is_integer (q * r)"
  unfolding is_integer_def
  by (metis floor_of_int of_int_mult)

lemma is_integerE:
  assumes "is_integer q"
  obtains n where "q = rat_of_int n"
  using assms unfolding is_integer_def by blast

lemma first_row_Some_mem:
  assumes "first_row rows pid = Some p"
  shows "p \<in> set rows"
proof -
  from assms obtain ps where "filter (\<lambda>p. p_id p = pid) rows = p # ps"
    by (auto simp: first_row_def split: list.splits)
  then have "p \<in> set (filter (\<lambda>p. p_id p = pid) rows)"
    by (metis list.set_intros(1))
  then show ?thesis by simp
qed

lemma two_decimals_unit_price:
  "\<forall>p \<in> set rows. two_decimals (p_price p) \<Longrightarrow> two_decimals (unit_price rows pid)"
proof -
  assume a: "\<forall>p \<in> set rows. two_decimals (p_price p)"
  show ?thesis
  proof (cases "first_row rows pid")
    case None
    then show ?thesis by (simp add: unit_price_def two_decimals_def)
  next
    case (Some p)
    then have "p \<in> set rows"
      by (rule first_row_Some_mem)
    then show ?thesis using a Some by (simp add: unit_price_def)
  qed
qed

lemma subtotal_hundredths:
  assumes "\<forall>p \<in> set rows. two_decimals (p_price p)"
    and "\<forall>it \<in> set its. is_integer (quantity it)"
  shows "is_integer (subtotal rows its * 100)"
  using assms(2)
proof (induction its)
  case Nil
  then show ?case by (simp add: subtotal_def)
next
  case (Cons it its)
  have "is_integer (unit_price rows (productId it) * 100 * quantity it)"
    using two_decimals_unit_price [OF assms(1), of "productId it"] Cons.prems
    by (intro is_integer_mult [of "unit_price rows (productId it) * 100"])
      (simp_all add: two_decimals_def)
  moreover have "is_integer (subtotal rows its * 100)"
    using Cons by simp
  ultimately have "is_integer (unit_price rows (productId it) * 100 * quantity it + subtotal rows its * 100)"
    by (rule is_integer_add)
  then show ?case
    by (simp add: subtotal_def algebra_simps)
qed

lemma floor_stable:
  fixes m :: int and b :: rat
  assumes "\<bar>b - rat_of_int (54 * m + 25) / 50\<bar> < 1 / 50"
  shows "\<lfloor>b\<rfloor> = (54 * m + 25) div 50"
proof -
  let ?z = "54 * m + 25"
  let ?k = "?z div 50"
  let ?r = "?z mod 50"
  have "odd ?z" by simp
  then have "odd ?r"
    by (metis dvd_mod_iff even_numeral)
  then have "?r \<noteq> 0" "?r \<noteq> 49 + 1"
    by auto
  moreover have "0 \<le> ?r" "?r < 50"
    by simp_all
  ultimately have r: "1 \<le> ?r" "?r \<le> 49"
    by linarith+
  have "?z = 50 * ?k + ?r"
    by simp
  then have "rat_of_int ?z = 50 * rat_of_int ?k + rat_of_int ?r"
    by (metis of_int_add of_int_mult of_int_numeral)
  then have a: "rat_of_int ?z / 50 = rat_of_int ?k + rat_of_int ?r / 50"
    by simp
  have "1 \<le> rat_of_int ?r" "rat_of_int ?r \<le> 49"
    using r by linarith+
  then have "rat_of_int ?k + 1 / 50 \<le> rat_of_int ?z / 50"
    "rat_of_int ?z / 50 \<le> rat_of_int ?k + 49 / 50"
    unfolding a by simp_all
  then have "rat_of_int ?k \<le> b" "b < rat_of_int ?k + 1"
    using assms by linarith+
  then show ?thesis
    by (rule floor_unique)
qed

lemma toFixed2_cong:
  assumes "\<bar>x\<bar> < 10 ^ 21" "\<bar>y\<bar> < 10 ^ 21" "(y < 0) = (x < 0)"
    and "\<lfloor>\<bar>y\<bar> * 100 + 1 / 2\<rfloor> = \<lfloor>\<bar>x\<bar> * 100 + 1 / 2\<rfloor>"
  shows "toFixed2 y = toFixed2 x"
  using assms by (simp add: toFixed2_def Let_def)

lemma toFixed2_stable:
  assumes "is_integer (t * 100)" "t \<noteq> 0"
    and "\<bar>t * (108 / 100)\<bar> \<le> 10 ^ 21 - 1"
    and "\<bar>y - t * (108 / 100)\<bar> < 1 / 5000"
  shows "toFixed2 y = toFixed2 (t * (108 / 100))"
proof -
  let ?x = "t * (108 / 100)"
  from assms(1) obtain n where "t * 100 = rat_of_int n"
    by (rule is_integerE)
  then have t: "t = rat_of_int n / 100"
    by simp
  have n0: "n \<noteq> 0"
    using assms(2) t by auto
  have x: "?x = rat_of_int n * (27 / 2500)"
    unfolding t by simp
  have ax: "\<bar>?x\<bar> = rat_of_int \<bar>n\<bar> * (27 / 2500)"
    unfolding x by (simp add: abs_mult)
  have "1 \<le> \<bar>n\<bar>"
    using n0 by linarith
  then have "1 \<le> rat_of_int \<bar>n\<bar>"
    by linarith
  then have big: "27 / 2500 \<le> \<bar>?x\<bar>"
    unfolding ax by simp
  have sign: "(y < 0) = (?x < 0)"
    using big assms(4) by linarith
  have "\<bar>\<bar>y\<bar> - \<bar>?x\<bar>\<bar> \<le> \<bar>y - ?x\<bar>"
    by (rule abs_triangle_ineq3)
  then have close: "\<bar>\<bar>y\<bar> - \<bar>?x\<bar>\<bar> < 1 / 5000"
    using assms(4) by linarith
  have a: "\<bar>?x\<bar> * 100 + 1 / 2 = rat_of_int (54 * \<bar>n\<bar> + 25) / 50"
    unfolding ax by simp
  have "\<bar>(\<bar>y\<bar> * 100 + 1 / 2) - rat_of_int (54 * \<bar>n\<bar> + 25) / 50\<bar> = 100 * \<bar>\<bar>y\<bar> - \<bar>?x\<bar>\<bar>"
    unfolding a [symmetric] by (simp add: abs_if) 
  also have "\<dots> < 1 / 50"
    using close by simp
  finally have fy: "\<lfloor>\<bar>y\<bar> * 100 + 1 / 2\<rfloor> = (54 * \<bar>n\<bar> + 25) div 50"
    by (rule floor_stable)
  have "\<bar>(\<bar>?x\<bar> * 100 + 1 / 2) - rat_of_int (54 * \<bar>n\<bar> + 25) / 50\<bar> < 1 / 50"
    unfolding a by simp
  then have fx: "\<lfloor>\<bar>?x\<bar> * 100 + 1 / 2\<rfloor> = (54 * \<bar>n\<bar> + 25) div 50"
    by (rule floor_stable)
  have lx: "\<bar>?x\<bar> < 10 ^ 21"
    using assms(3) by linarith
  have "\<bar>y\<bar> \<le> \<bar>?x\<bar> + \<bar>y - ?x\<bar>"
    by linarith
  then have ly: "\<bar>y\<bar> < 10 ^ 21"
    using assms(3,4) by linarith
  show ?thesis
    using lx ly sign by (rule toFixed2_cong) (simp only: fx fy)
qed

section \<open>The arithmetic of doubles\<close>

text \<open>
  What rounding to a double costs: at most half the distance between neighbouring doubles,
  which in the normal range is at most \<open>2\<^sup>-\<^sup>5\<^sup>3\<close> of the value. Integers below \<open>2\<^sup>5\<^sup>3\<close> are
  doubles, and a sum of two doubles below the normal range is one.
\<close>

lemma round_half_even_error: "\<bar>rat_of_int (round_half_even y) - y\<bar> \<le> 1 / 2"
proof -
  have "rat_of_int \<lfloor>y\<rfloor> \<le> y" "y < rat_of_int \<lfloor>y\<rfloor> + 1"
    by linarith+
  then show ?thesis
    by (auto simp: round_half_even_def Let_def)
qed

lemma round_half_even_of_int [simp]: "round_half_even (rat_of_int n) = n"
  by (simp add: round_half_even_def)

lemma exponent_bounds:
  assumes "0 < y"
  shows "2 powi exponent y \<le> y \<and> y < 2 powi (exponent y + 1)"
proof (cases "1 \<le> y")
  case True
  let ?m = "nat \<lfloor>y\<rfloor>"
  let ?k = "floorlog 2 ?m"
  have m: "0 < ?m" using True by simp
  from floorlog_bounds [of ?m 2] m have b: "2 ^ (?k - 1) \<le> ?m" "?m < 2 ^ ?k"
    by simp_all
  have k: "0 < ?k" using b(2) m by (cases "?k = 0") simp_all
  have "rat_of_nat ?m \<le> y"
    using True by (simp add: of_nat_nat)
  moreover have "rat_of_nat (2 ^ (?k - 1)) \<le> rat_of_nat ?m"
    using b(1) by (simp only: of_nat_le_iff)
  ultimately have "rat_of_nat (2 ^ (?k - 1)) \<le> y"
    by (rule order_trans [rotated])
  then have lo: "2 ^ (?k - 1) \<le> y"
    by (simp only: of_nat_power of_nat_numeral)
  have "y < rat_of_nat ?m + 1"
    using True by (simp add: of_nat_nat) linarith
  moreover have "rat_of_nat ?m + 1 \<le> rat_of_nat (2 ^ ?k)"
    using b(2) by (metis Suc_leI of_nat_Suc of_nat_le_iff add.commute)
  ultimately have "y < rat_of_nat (2 ^ ?k)"
    by (rule less_le_trans)
  then have hi: "y < 2 ^ ?k"
    by (simp only: of_nat_power of_nat_numeral)
  have e: "exponent y = int ?k - 1"
    using True by (simp add: exponent_def)
  have "int ?k - 1 = int (?k - 1)"
    using k by simp
  then have "(2::rat) powi (int ?k - 1) = 2 ^ (?k - 1)"
    by (simp only: power_int_of_nat)
  moreover have "(2::rat) powi (int ?k - 1 + 1) = 2 ^ ?k"
    by simp
  ultimately show ?thesis
    using lo hi unfolding e by simp
next
  case False
  let ?z = "1 / y"
  let ?m = "nat (\<lceil>?z\<rceil> - 1)"
  let ?k = "floorlog 2 ?m"
  have z: "1 < ?z" using False assms by simp
  then have c: "2 \<le> \<lceil>?z\<rceil>"
    by (simp add: le_ceiling_iff) 
  then have m: "0 < ?m" by simp
  from floorlog_bounds [of ?m 2] m have b: "2 ^ (?k - 1) \<le> ?m" "?m < 2 ^ ?k"
    by simp_all
  have k: "0 < ?k" using b(2) m by (cases "?k = 0") simp_all
  have mz: "rat_of_nat ?m < ?z" "?z \<le> rat_of_nat ?m + 1"
    using c by (simp_all add: of_nat_nat) linarith+
  have "rat_of_nat ?m + 1 \<le> rat_of_nat (2 ^ ?k)"
    using b(2) by (metis Suc_leI of_nat_Suc of_nat_le_iff add.commute)
  with mz(2) have "?z \<le> rat_of_nat (2 ^ ?k)"
    by (rule order_trans)
  then have zk: "?z \<le> 2 ^ ?k"
    by (simp only: of_nat_power of_nat_numeral)
  have "rat_of_nat (2 ^ (?k - 1)) \<le> rat_of_nat ?m"
    using b(1) by (simp only: of_nat_le_iff)
  then have "rat_of_nat (2 ^ (?k - 1)) < ?z"
    using mz(1) by (rule le_less_trans)
  then have kz: "2 ^ (?k - 1) < ?z"
    by (simp only: of_nat_power of_nat_numeral)
  have lo: "1 / 2 ^ ?k \<le> y"
    using zk assms by (simp add: field_simps)
  have hi: "y < 1 / 2 ^ (?k - 1)"
    using kz assms by (simp add: field_simps)
  have e: "exponent y = - int ?k"
    using False by (simp add: exponent_def)
  have "(2::rat) powi (- int ?k) = inverse (2 ^ ?k)"
    by (simp only: power_int_minus power_int_of_nat)
  then have p1: "(2::rat) powi (- int ?k) = 1 / 2 ^ ?k"
    by (simp add: divide_inverse)
  have "- int ?k + 1 = - int (?k - 1)"
    using k by simp
  then have "(2::rat) powi (- int ?k + 1) = 2 powi (- int (?k - 1))"
    by (rule arg_cong)
  also have "\<dots> = inverse (2 ^ (?k - 1))"
    by (simp only: power_int_minus power_int_of_nat)
  finally have p2: "(2::rat) powi (- int ?k + 1) = 1 / 2 ^ (?k - 1)"
    by (simp add: divide_inverse)
  show ?thesis
    unfolding e p1 p2 using lo hi by simp
qed

lemma exponent_unique:
  assumes "0 < y" "2 powi e \<le> y" "y < 2 powi (e + 1)"
  shows "exponent y = e"
proof (rule ccontr)
  assume ne: "exponent y \<noteq> e"
  from exponent_bounds [OF assms(1)] have b: "2 powi exponent y \<le> y" "y < 2 powi (exponent y + 1)"
    by simp_all
  show False
  proof (cases "exponent y < e")
    case True
    then have "(2::rat) powi (exponent y + 1) \<le> 2 powi e"
      by (intro power_int_increasing) simp_all
    then show False using b(2) assms(2) by linarith
  next
    case False
    then have "e + 1 \<le> exponent y" using ne by simp
    then have "(2::rat) powi (e + 1) \<le> 2 powi exponent y"
      by (intro power_int_increasing) simp_all
    then show False using b(1) assms(3) by linarith
  qed
qed

lemma binary64_0 [simp]: "binary64 0 = 0"
  by (simp add: binary64_def)

lemma binary64_quantum:
  assumes "x \<noteq> 0"
  shows "binary64 x =
    2 powi (max (exponent \<bar>x\<bar>) (- 1022) - 52) *
      rat_of_int (round_half_even (x / 2 powi (max (exponent \<bar>x\<bar>) (- 1022) - 52)))"
  using assms by (simp add: binary64_def Let_def)

lemma binary64_eval:
  assumes "x \<noteq> 0" "2 powi e \<le> \<bar>x\<bar>" "\<bar>x\<bar> < 2 powi (e + 1)" "- 1022 \<le> e"
  shows "binary64 x = 2 powi (e - 52) * rat_of_int (round_half_even (x / 2 powi (e - 52)))"
proof -
  have "exponent \<bar>x\<bar> = e"
    using assms by (intro exponent_unique) simp_all
  then show ?thesis
    using assms(1,4) by (simp add: binary64_quantum max_def)
qed

lemma binary64_half_quantum:
  assumes "x \<noteq> 0"
  shows "\<bar>binary64 x - x\<bar> \<le> 2 powi (max (exponent \<bar>x\<bar>) (- 1022) - 53)"
proof -
  let ?j = "max (exponent \<bar>x\<bar>) (- 1022) - 52"
  let ?q = "(2::rat) powi ?j"
  have q: "0 < ?q" by simp
  have "binary64 x - x = ?q * (rat_of_int (round_half_even (x / ?q)) - x / ?q)"
    using q by (simp add: binary64_quantum [OF assms] algebra_simps)
  then have "\<bar>binary64 x - x\<bar> = ?q * \<bar>rat_of_int (round_half_even (x / ?q)) - x / ?q\<bar>"
    using q by (simp add: abs_mult)
  also have "\<dots> \<le> ?q * (1 / 2)"
    using q round_half_even_error [of "x / ?q"] by (intro mult_left_mono) simp_all
  also have "\<dots> = 2 powi (?j - 1)"
    by (simp add: power_int_diff)
  finally show ?thesis
    by (simp add: algebra_simps)
qed

text \<open>The relative error of rounding in the normal range.\<close>

lemma binary64_error:
  assumes "2 powi (- 1022) \<le> \<bar>x\<bar>"
  shows "\<bar>binary64 x - x\<bar> \<le> \<bar>x\<bar> / 2 ^ 53"
proof -
  have x: "x \<noteq> 0" "0 < \<bar>x\<bar>"
    using assms zero_less_power_int [of "2::rat" "- 1022"] by auto
  from exponent_bounds [OF x(2)] have b: "2 powi exponent \<bar>x\<bar> \<le> \<bar>x\<bar>" "\<bar>x\<bar> < 2 powi (exponent \<bar>x\<bar> + 1)"
    by simp_all
  have "- 1022 < exponent \<bar>x\<bar> + 1"
  proof (rule ccontr)
    assume "\<not> - 1022 < exponent \<bar>x\<bar> + 1"
    then have "(2::rat) powi (exponent \<bar>x\<bar> + 1) \<le> 2 powi (- 1022)"
      by (intro power_int_increasing) simp_all
    then show False using b(2) assms by linarith
  qed
  then have m: "max (exponent \<bar>x\<bar>) (- 1022) = exponent \<bar>x\<bar>"
    by simp
  have "\<bar>binary64 x - x\<bar> \<le> 2 powi (exponent \<bar>x\<bar> - 53)"
    using binary64_half_quantum [OF x(1)] unfolding m .
  also have "\<dots> = 2 powi exponent \<bar>x\<bar> / 2 ^ 53"
    by (simp add: power_int_diff)
  also have "\<dots> \<le> \<bar>x\<bar> / 2 ^ 53"
    using b(1) by (simp add: divide_right_mono)
  finally show ?thesis .
qed

text \<open>Every result lies on the grid of the subnormal numbers.\<close>

lemma on_grid_iff: "on_grid x \<longleftrightarrow> (\<exists>m. x = rat_of_int m * 2 powi (- 1074))"
proof -
  define c :: rat where "c = 2 ^ 1074"
  have c: "0 < c"
    by (simp add: c_def)
  have "(2::rat) powi (- 1074) = inverse (2 ^ 1074)"
    by (simp only: power_int_minus power_int_numeral)
  then have p: "(2::rat) powi (- 1074) = 1 / c"
    by (simp only: c_def divide_inverse mult_1)
  have "x * c = rat_of_int m \<longleftrightarrow> x = rat_of_int m * (1 / c)" for m
    using c by (auto simp: field_simps)
  then have "(\<exists>m. x * c = rat_of_int m) \<longleftrightarrow> (\<exists>m. x = rat_of_int m * 2 powi (- 1074))"
    unfolding p by simp
  moreover have "on_grid x \<longleftrightarrow> (\<exists>m. x * c = rat_of_int m)"
    unfolding on_grid_def is_integer_def c_def by (metis floor_of_int)
  ultimately show ?thesis
    by simp
qed

lemma on_grid_binary64: "on_grid (binary64 x)"
proof (cases "x = 0")
  case True
  then show ?thesis by (auto simp: on_grid_iff intro: exI [of _ 0])
next
  case False
  let ?e = "max (exponent \<bar>x\<bar>) (- 1022)"
  have "0 \<le> ?e + 1022" by simp
  then obtain n where n: "?e + 1022 = int n"
    using nonneg_int_cases by blast
  have "?e - 52 = int n + (- 1074)"
    using n by simp
  moreover have "(2::rat) powi (int n + (- 1074)) = 2 powi int n * 2 powi (- 1074)"
    by (rule power_int_add) simp
  ultimately have "(2::rat) powi (?e - 52) = 2 ^ n * 2 powi (- 1074)"
    by (simp only: power_int_of_nat)
  then have "binary64 x = rat_of_int (2 ^ n * round_half_even (x / 2 powi (?e - 52))) * 2 powi (- 1074)"
    by (simp add: binary64_quantum [OF False] algebra_simps)
  then show ?thesis
    unfolding on_grid_iff by blast
qed

lemma binary64_exact:
  assumes "x = rat_of_int m * 2 powi k" "\<bar>m\<bar> < 2 ^ 53" "- 1074 \<le> k"
  shows "binary64 x = x"
proof (cases "x = 0")
  case True
  then show ?thesis by simp
next
  case False
  let ?e = "exponent \<bar>x\<bar>"
  let ?j = "max ?e (- 1022) - 52"
  have pos: "0 < \<bar>x\<bar>" using False by simp
  have "rat_of_int \<bar>m\<bar> < rat_of_int (2 ^ 53)"
    using assms(2) by (simp only: of_int_less_iff)
  then have "rat_of_int \<bar>m\<bar> * 2 powi k < 2 ^ 53 * 2 powi k"
    by (intro mult_strict_right_mono) simp_all
  moreover have "\<bar>x\<bar> = rat_of_int \<bar>m\<bar> * 2 powi k"
    unfolding assms(1) by (simp add: abs_mult)
  moreover have "(2::rat) powi (53 + k) = 2 powi 53 * 2 powi k"
    by (rule power_int_add) simp
  ultimately have up: "\<bar>x\<bar> < 2 powi (53 + k)"
    by simp
  have "?e < 53 + k"
  proof (rule ccontr)
    assume "\<not> ?e < 53 + k"
    then have "(2::rat) powi (53 + k) \<le> 2 powi ?e"
      by (intro power_int_increasing) simp_all
    then show False using up exponent_bounds [OF pos] by linarith
  qed
  then have jk: "?j \<le> k"
    using assms(3) by simp
  define j where "j = ?j"
  have q: "binary64 x = 2 powi j * rat_of_int (round_half_even (x / 2 powi j))"
    unfolding j_def by (rule binary64_quantum [OF False])
  from jk obtain n where n: "k - j = int n"
    unfolding j_def [symmetric] using nonneg_int_cases [of "k - j"] by auto
  then have "k = int n + j" by simp
  moreover have "(2::rat) powi (int n + j) = 2 powi int n * 2 powi j"
    by (rule power_int_add) simp
  ultimately have k: "(2::rat) powi k = 2 ^ n * 2 powi j"
    by (simp only: power_int_of_nat)
  have x: "x = rat_of_int (m * 2 ^ n) * 2 powi j"
    unfolding assms(1) k by simp
  then have "x / 2 powi j = rat_of_int (m * 2 ^ n)"
    by simp
  then have "binary64 x = 2 powi j * rat_of_int (m * 2 ^ n)"
    unfolding q by (simp only: round_half_even_of_int)
  also have "\<dots> = x"
    using x by simp
  finally show ?thesis .
qed

lemma binary64_of_int:
  "\<bar>m\<bar> < 2 ^ 53 \<Longrightarrow> binary64 (rat_of_int m) = rat_of_int m"
  using binary64_exact [of "rat_of_int m" m 0] by simp

text \<open>Adding two doubles has a relative error only: below the normal range the sum is exact.\<close>

lemma binary64_add_error:
  assumes "on_grid a" "on_grid b"
  shows "\<bar>binary64 (a + b) - (a + b)\<bar> \<le> \<bar>a + b\<bar> / 2 ^ 53"
proof (cases "2 powi (- 1022) \<le> \<bar>a + b\<bar>")
  case True
  then show ?thesis by (rule binary64_error)
next
  case False
  from assms obtain m n where mn: "a = rat_of_int m * 2 powi (- 1074)" "b = rat_of_int n * 2 powi (- 1074)"
    unfolding on_grid_iff by blast
  then have s: "a + b = rat_of_int (m + n) * 2 powi (- 1074)"
    by (simp add: algebra_simps)
  have "(2::rat) powi (- 1022) = 2 powi 52 * 2 powi (- 1074)"
    by (simp add: power_int_add [symmetric])
  moreover have "\<bar>a + b\<bar> = rat_of_int \<bar>m + n\<bar> * 2 powi (- 1074)"
    unfolding s by (simp add: abs_mult)
  ultimately have "rat_of_int \<bar>m + n\<bar> * 2 powi (- 1074) < 2 powi 52 * 2 powi (- 1074)"
    using False by simp
  then have "rat_of_int \<bar>m + n\<bar> < 2 powi 52"
    by (simp only: mult_less_cancel_right_pos zero_less_power_int zero_less_numeral)
  then have "rat_of_int \<bar>m + n\<bar> < rat_of_int (2 ^ 52)"
    by simp
  then have "\<bar>m + n\<bar> < 2 ^ 52"
    by (simp only: of_int_less_iff)
  then have "\<bar>m + n\<bar> < 2 ^ 53"
    by simp
  then have "binary64 (a + b) = a + b"
    using binary64_exact [OF s] by simp
  then show ?thesis by simp
qed

lemma tiny_le: "(2::rat) powi (- 1022) \<le> 1 / 200"
proof -
  have "(2::rat) powi (- 1022) \<le> 2 powi (- 8)"
    by (intro power_int_increasing) simp_all
  also have "\<dots> \<le> 1 / 200"
    by simp
  finally show ?thesis .
qed

lemma two_decimals_large:
  assumes "two_decimals p" "p \<noteq> 0"
  shows "1 / 100 \<le> \<bar>p\<bar>"
proof -
  from assms(1) obtain n where n: "p * 100 = rat_of_int n"
    unfolding two_decimals_def by (rule is_integerE)
  then have "n \<noteq> 0" using assms(2) by auto
  then have "1 \<le> \<bar>n\<bar>" by linarith
  then have "1 \<le> rat_of_int \<bar>n\<bar>" by linarith
  also have "\<dots> = \<bar>p\<bar> * 100"
    using n by (simp add: abs_mult [symmetric] del: of_int_abs)
  finally show ?thesis by simp
qed

lemma integer_large:
  assumes "is_integer q" "q \<noteq> 0"
  shows "1 \<le> \<bar>q\<bar>"
proof -
  from assms(1) obtain n where n: "q = rat_of_int n"
    by (rule is_integerE)
  then have "n \<noteq> 0" using assms(2) by auto
  then have "1 \<le> \<bar>n\<bar>" by linarith
  then have "1 \<le> rat_of_int \<bar>n\<bar>" by linarith
  then show ?thesis using n by simp
qed

lemma abs_diff_triangle: "\<bar>a - c\<bar> \<le> \<bar>a - b\<bar> + \<bar>b - c\<bar>" for a b c :: rat
  by linarith

text \<open>The error of one term \<^verbatim>\<open>price * item.quantity\<close>.\<close>

lemma term_error:
  assumes "two_decimals p" "is_integer q"
  shows "\<bar>binary64 (binary64 p * q) - p * q\<bar> \<le> 3 * \<bar>p * q\<bar> / 2 ^ 53"
proof (cases "p = 0 \<or> q = 0")
  case True
  then show ?thesis by auto
next
  case False
  then have p: "p \<noteq> 0" and q: "q \<noteq> 0" by simp_all
  define u :: rat where "u = 1 / 2 ^ 53"
  have u: "0 < u" "u \<le> 1 / 2" by (simp_all add: u_def)
  have pl: "1 / 100 \<le> \<bar>p\<bar>" using assms(1) p by (rule two_decimals_large)
  have ql: "1 \<le> \<bar>q\<bar>" using assms(2) q by (rule integer_large)
  have "2 powi (- 1022) \<le> \<bar>p\<bar>"
    using tiny_le pl by linarith
  then have e1: "\<bar>binary64 p - p\<bar> \<le> u * \<bar>p\<bar>"
    using binary64_error [of p] by (simp add: u_def)
  then have ph: "\<bar>binary64 p\<bar> \<le> (1 + u) * \<bar>p\<bar>" "(1 - u) * \<bar>p\<bar> \<le> \<bar>binary64 p\<bar>"
    by (simp_all add: algebra_simps)
  have "1 / 200 \<le> (1 - u) * \<bar>p\<bar>"
  proof -
    have "1 / 2 * (1 / 100) \<le> (1 - u) * \<bar>p\<bar>"
      using u pl by (intro mult_mono) simp_all
    then show ?thesis by simp
  qed
  then have "1 / 200 \<le> \<bar>binary64 p\<bar>"
    using ph(2) by linarith
  moreover have "\<bar>binary64 p\<bar> * 1 \<le> \<bar>binary64 p\<bar> * \<bar>q\<bar>"
    using ql by (intro mult_left_mono) simp_all
  ultimately have "2 powi (- 1022) \<le> \<bar>binary64 p * q\<bar>"
    using tiny_le by (simp add: abs_mult) 
  then have e2: "\<bar>binary64 (binary64 p * q) - binary64 p * q\<bar> \<le> u * \<bar>binary64 p * q\<bar>"
    using binary64_error [of "binary64 p * q"] by (simp add: u_def)
  have "\<bar>binary64 p * q\<bar> \<le> (1 + u) * \<bar>p\<bar> * \<bar>q\<bar>"
    using ph(1) by (simp add: abs_mult mult_right_mono)
  then have "u * \<bar>binary64 p * q\<bar> \<le> u * ((1 + u) * \<bar>p\<bar> * \<bar>q\<bar>)"
    using u(1) by (intro mult_left_mono) simp_all
  then have a: "\<bar>binary64 (binary64 p * q) - binary64 p * q\<bar> \<le> u * (1 + u) * \<bar>p * q\<bar>"
    using e2 by (simp add: abs_mult algebra_simps)
  have "\<bar>binary64 p * q - p * q\<bar> = \<bar>binary64 p - p\<bar> * \<bar>q\<bar>"
    by (simp add: abs_mult [symmetric] algebra_simps)
  also have "\<dots> \<le> u * \<bar>p\<bar> * \<bar>q\<bar>"
    using e1 by (intro mult_right_mono) simp_all
  finally have b: "\<bar>binary64 p * q - p * q\<bar> \<le> u * \<bar>p * q\<bar>"
    by (simp add: abs_mult algebra_simps)
  have "u * (1 + u) * \<bar>p * q\<bar> \<le> u * (1 + 1) * \<bar>p * q\<bar>"
    using u by (intro mult_right_mono mult_left_mono) simp_all
  then have c: "u * (1 + u) * \<bar>p * q\<bar> \<le> 2 * (u * \<bar>p * q\<bar>)"
    by simp
  have "\<bar>binary64 (binary64 p * q) - p * q\<bar>
      \<le> \<bar>binary64 (binary64 p * q) - binary64 p * q\<bar> + \<bar>binary64 p * q - p * q\<bar>"
    by (rule abs_diff_triangle)
  also have "\<dots> \<le> 2 * (u * \<bar>p * q\<bar>) + u * \<bar>p * q\<bar>"
    using order_trans [OF a c] b by (rule add_mono)
  finally have "\<bar>binary64 (binary64 p * q) - p * q\<bar> \<le> 3 * u * \<bar>p * q\<bar>"
    by simp
  then show ?thesis by (simp add: u_def)
qed

text \<open>One step of the accumulation \<^verbatim>\<open>total += ...\<close>.\<close>

lemma accumulate_step:
  fixes u E et S a i t t' th x xh :: rat
  assumes u: "0 \<le> u" "u * (5 * i + 3) \<le> 1"
    and i: "0 \<le> i" and S: "0 \<le> S" "\<bar>t\<bar> \<le> S" and a: "\<bar>x\<bar> \<le> a"
    and E: "\<bar>th - t\<bar> \<le> 5 * u * i * S"
    and et: "\<bar>xh - x\<bar> \<le> 3 * u * a"
    and r: "\<bar>t' - (th + xh)\<bar> \<le> u * \<bar>th + xh\<bar>"
  shows "\<bar>t' - (t + x)\<bar> \<le> 5 * u * (i + 1) * (S + a)"
proof -
  define D where "D = \<bar>th - t\<bar> + \<bar>xh - x\<bar>"
  have a0: "0 \<le> a" using a by linarith
  have D0: "0 \<le> D" by (simp add: D_def)
  have "5 * u * i * S \<le> 5 * u * i * (S + a)"
    using u(1) i a0 by (intro mult_left_mono) simp_all
  moreover have "3 * u * a \<le> 3 * u * (S + a)"
    using u(1) S(1) by (intro mult_left_mono) simp_all
  ultimately have D: "D \<le> u * (5 * i + 3) * (S + a)"
    using E et by (simp add: D_def algebra_simps)
  have "\<bar>th + xh\<bar> \<le> \<bar>t + x\<bar> + D"
    unfolding D_def by linarith
  also have "\<dots> \<le> (S + a) + D"
    using S(2) a by linarith
  finally have "u * \<bar>th + xh\<bar> \<le> u * ((S + a) + D)"
    using u(1) by (intro mult_left_mono)
  moreover have "\<bar>t' - (t + x)\<bar> \<le> \<bar>t' - (th + xh)\<bar> + D"
    unfolding D_def by linarith
  ultimately have 1: "\<bar>t' - (t + x)\<bar> \<le> u * (S + a) + (1 + u) * D"
    using r by (simp add: algebra_simps)
  have "u * D \<le> u * (u * (5 * i + 3) * (S + a))"
    using D u(1) by (intro mult_left_mono)
  also have "\<dots> = u * (5 * i + 3) * (u * (S + a))"
    by simp
  also have "\<dots> \<le> 1 * (u * (S + a))"
    using u S(1) a0 by (intro mult_right_mono) simp_all
  finally have "u * D \<le> u * (S + a)"
    by simp
  then have "\<bar>t' - (t + x)\<bar> \<le> u * (S + a) + u * (5 * i + 3) * (S + a) + u * (S + a)"
    using 1 D by (simp add: algebra_simps)
  also have "\<dots> = 5 * u * (i + 1) * (S + a)"
    by (simp add: algebra_simps)
  finally show ?thesis .
qed

lemma subtotal_Cons:
  "subtotal rows (it # its) = unit_price rows (productId it) * quantity it + subtotal rows its"
  by (simp add: subtotal_def)

lemma gross_Cons:
  "gross rows (it # its) = \<bar>unit_price rows (productId it) * quantity it\<bar> + gross rows its"
  by (simp add: gross_def)

lemma accumulate_Cons:
  "accumulate rows t (it # its) =
     accumulate rows
       (binary64 (t + binary64 (binary64 (unit_price rows (productId it)) * quantity it))) its"
  by (simp add: accumulate_def)

lemma gross_nonneg: "0 \<le> gross rows its"
  by (induction its) (simp_all add: gross_def)

lemma subtotal_le_gross: "\<bar>subtotal rows its\<bar> \<le> gross rows its"
proof (induction its)
  case Nil
  then show ?case by (simp add: subtotal_def gross_def)
next
  case (Cons it its)
  then show ?case
    unfolding subtotal_Cons gross_Cons by linarith
qed

text \<open>
  The error of \<^verbatim>\<open>total\<close>: after \<open>i\<close> items it is at most \<open>5 i\<close> units in the last place of the
  sum of the magnitudes added so far.
\<close>

lemma accumulate_bound:
  assumes "\<forall>p \<in> set rows. two_decimals (p_price p)"
    and "\<forall>it \<in> set its. is_integer (quantity it)"
    and "on_grid th"
    and "\<bar>th - t\<bar> \<le> 5 * (1 / 2 ^ 53) * rat_of_nat i * S"
    and "\<bar>t\<bar> \<le> S"
    and "i + length its \<le> 10 ^ 13"
  shows "\<bar>accumulate rows th its - (t + subtotal rows its)\<bar>
    \<le> 5 * (1 / 2 ^ 53) * rat_of_nat (i + length its) * (S + gross rows its)"
  using assms(2-)
proof (induction its arbitrary: th t i S)
  case Nil
  then show ?case by (simp add: accumulate_def subtotal_def gross_def)
next
  case (Cons it its)
  define p where "p = unit_price rows (productId it)"
  define q where "q = quantity it"
  define xh where "xh = binary64 (binary64 p * q)"
  define t' where "t' = binary64 (th + xh)"
  define u :: rat where "u = 1 / 2 ^ 53"
  have p: "two_decimals p"
    unfolding p_def using assms(1) by (rule two_decimals_unit_price)
  have q: "is_integer q"
    unfolding q_def using Cons.prems(1) by simp
  have xe: "\<bar>xh - p * q\<bar> \<le> 3 * u * \<bar>p * q\<bar>"
    using term_error [OF p q] by (simp add: xh_def u_def)
  have "on_grid xh"
    unfolding xh_def by (rule on_grid_binary64)
  with Cons.prems(2) have "\<bar>binary64 (th + xh) - (th + xh)\<bar> \<le> \<bar>th + xh\<bar> / 2 ^ 53"
    by (rule binary64_add_error)
  then have r: "\<bar>t' - (th + xh)\<bar> \<le> u * \<bar>th + xh\<bar>"
    by (simp add: t'_def u_def)
  have "i \<le> 10 ^ 13"
    using Cons.prems(5) by simp
  then have "rat_of_nat i \<le> rat_of_nat (10 ^ 13)"
    by (simp only: of_nat_le_iff)
  then have i: "rat_of_nat i \<le> 10 ^ 13"
    by simp
  have u: "0 \<le> u" "u * (5 * rat_of_nat i + 3) \<le> 1"
    using i by (simp_all add: u_def)
  have S: "0 \<le> S"
    using Cons.prems(4) by linarith
  have "\<bar>t' - (t + p * q)\<bar> \<le> 5 * u * (rat_of_nat i + 1) * (S + \<bar>p * q\<bar>)"
    using u _ S Cons.prems(4) order_refl Cons.prems(3) [folded u_def] xe r
    by (rule accumulate_step) simp
  moreover have "rat_of_nat (Suc i) = rat_of_nat i + 1"
    by simp
  ultimately have e: "\<bar>t' - (t + p * q)\<bar> \<le> 5 * (1 / 2 ^ 53) * rat_of_nat (Suc i) * (S + \<bar>p * q\<bar>)"
    by (simp only: u_def)
  have g: "on_grid t'"
    unfolding t'_def by (rule on_grid_binary64)
  have b: "\<bar>t + p * q\<bar> \<le> S + \<bar>p * q\<bar>"
    using Cons.prems(4) by linarith
  have n: "Suc i + length its \<le> 10 ^ 13"
    using Cons.prems(5) by simp
  have ints: "\<forall>it \<in> set its. is_integer (quantity it)"
    using Cons.prems(1) by simp
  have "\<bar>accumulate rows t' its - (t + p * q + subtotal rows its)\<bar>
      \<le> 5 * (1 / 2 ^ 53) * rat_of_nat (Suc i + length its) * (S + \<bar>p * q\<bar> + gross rows its)"
    using ints g e b n by (rule Cons.IH)
  then show ?case
    unfolding accumulate_Cons subtotal_Cons gross_Cons t'_def xh_def p_def q_def
    by (simp add: add.assoc)
qed

text \<open>The factor \<^verbatim>\<open>1 + taxRate\<close>.\<close>

lemma taxRate_value: "taxRate = 5764607523034235 / 72057594037927936"
  unfolding taxRate_def
  by (subst binary64_eval [where e = "- 4"]) (simp_all, code_simp)

lemma tax_factor: "binary64 (1 + taxRate) = 607985949695017 / 562949953421312"
  unfolding taxRate_value
  by (subst binary64_eval [where e = 0]) (simp_all, code_simp)

lemma on_grid_0: "on_grid 0"
  by (simp add: on_grid_def)

text \<open>
  The error of \<^verbatim>\<open>totalWithTax\<close> for a request of at most 1000 items whose magnitudes sum to
  at most \<open>10\<^sup>8\<close>, when the prices are whole hundredths and the exact sum is not zero.
\<close>

lemma total_error:
  assumes prices: "\<forall>p \<in> set rows. two_decimals (p_price p)"
    and ints: "\<forall>it \<in> set its. is_integer (quantity it)"
    and n: "length its \<le> 1000"
    and g: "gross rows its \<le> 10 ^ 8"
    and nz: "subtotal rows its \<noteq> 0"
  shows "\<bar>binary64 (accumulate rows 0 its * binary64 (1 + taxRate)) - subtotal rows its * (108 / 100)\<bar>
    < 1 / 5000"
proof -
  define T where "T = subtotal rows its"
  define Th where "Th = accumulate rows 0 its"
  define A where "A = gross rows its"
  define c :: rat where "c = 607985949695017 / 562949953421312"
  define N where "N = rat_of_nat (length its)"
  have A0: "0 \<le> A"
    unfolding A_def by (rule gross_nonneg)
  have "rat_of_nat (length its) \<le> rat_of_nat 1000"
    using n by (simp only: of_nat_le_iff)
  then have N: "0 \<le> N" "N \<le> 1000"
    by (simp_all add: N_def)
  have len: "0 + length its \<le> 10 ^ 13"
    using n by simp
  have "\<bar>Th - (0 + T)\<bar> \<le> 5 * (1 / 2 ^ 53) * rat_of_nat (0 + length its) * (0 + gross rows its)"
    unfolding Th_def T_def by (rule accumulate_bound [OF prices ints on_grid_0 _ _ len]) simp_all
  then have E0: "\<bar>Th - T\<bar> \<le> 5 / 2 ^ 53 * (N * A)"
    by (simp add: N_def A_def)
  have "N * A \<le> 1000 * 10 ^ 8"
    using N A0 g by (intro mult_mono) (simp_all add: A_def)
  then have "5 / 2 ^ 53 * (N * A) \<le> 5 / 2 ^ 53 * (1000 * 10 ^ 8)"
    by (intro mult_left_mono) simp_all
  also have "\<dots> \<le> 1 / 10000"
    by simp
  finally have E: "\<bar>Th - T\<bar> \<le> 1 / 10000"
    using E0 by linarith
  have "\<bar>T\<bar> \<le> A"
    unfolding T_def A_def by (rule subtotal_le_gross)
  then have Tb: "\<bar>T\<bar> \<le> 10 ^ 8"
    using g by (simp add: A_def)
  have "two_decimals T"
    unfolding two_decimals_def T_def using prices ints by (rule subtotal_hundredths)
  then have Tl: "1 / 100 \<le> \<bar>T\<bar>"
    using nz by (intro two_decimals_large) (simp_all add: T_def)
  have Thb: "\<bar>Th\<bar> \<le> 10 ^ 8 + 1 / 10000" "99 / 10000 \<le> \<bar>Th\<bar>"
    using E Tb Tl by linarith+
  have c: "0 \<le> c" "1 \<le> c" "c \<le> 11 / 10" "\<bar>c - 108 / 100\<bar> \<le> 1 / 10 ^ 16"
    by (simp_all add: c_def)
  have ac: "\<bar>Th * c\<bar> = \<bar>Th\<bar> * c"
    using c(1) by (simp add: abs_mult)
  have "99 / 10000 * 1 \<le> \<bar>Th\<bar> * c"
    using Thb(2) c(2) by (intro mult_mono) simp_all
  then have "2 powi (- 1022) \<le> \<bar>Th * c\<bar>"
    using tiny_le unfolding ac by linarith
  then have r0: "\<bar>binary64 (Th * c) - Th * c\<bar> \<le> \<bar>Th * c\<bar> / 2 ^ 53"
    by (rule binary64_error)
  have "\<bar>Th\<bar> * c \<le> (10 ^ 8 + 1 / 10000) * (11 / 10)"
    using Thb(1) c by (intro mult_mono) simp_all
  then have "\<bar>Th * c\<bar> / 2 ^ 53 \<le> (10 ^ 8 + 1 / 10000) * (11 / 10) / 2 ^ 53"
    unfolding ac by (intro divide_right_mono) simp_all
  also have "\<dots> \<le> 1 / 10 ^ 7"
    by simp
  finally have r: "\<bar>binary64 (Th * c) - Th * c\<bar> \<le> 1 / 10 ^ 7"
    using r0 by linarith
  have "Th * c - T * c = (Th - T) * c"
    by (simp add: algebra_simps)
  then have "\<bar>Th * c - T * c\<bar> = \<bar>Th - T\<bar> * c"
    using c(1) by (simp only: abs_mult abs_of_nonneg)
  also have "\<dots> \<le> 1 / 10000 * (11 / 10)"
    using E c by (intro mult_mono) simp_all
  finally have d1: "\<bar>Th * c - T * c\<bar> \<le> 11 / 100000"
    by simp
  have "T * c - T * (108 / 100) = T * (c - 108 / 100)"
    by (simp add: algebra_simps)
  then have "\<bar>T * c - T * (108 / 100)\<bar> = \<bar>T\<bar> * \<bar>c - 108 / 100\<bar>"
    by (simp only: abs_mult)
  also have "\<dots> \<le> 10 ^ 8 * (1 / 10 ^ 16)"
    using Tb c(4) by (intro mult_mono) simp_all
  finally have d2: "\<bar>T * c - T * (108 / 100)\<bar> \<le> 1 / 10 ^ 8"
    by simp
  have "\<bar>binary64 (Th * c) - T * (108 / 100)\<bar>
      \<le> \<bar>binary64 (Th * c) - Th * c\<bar> + \<bar>Th * c - T * (108 / 100)\<bar>"
    by (rule abs_diff_triangle)
  also have "\<bar>Th * c - T * (108 / 100)\<bar> \<le> \<bar>Th * c - T * c\<bar> + \<bar>T * c - T * (108 / 100)\<bar>"
    by (rule abs_diff_triangle)
  finally have "\<bar>binary64 (Th * c) - T * (108 / 100)\<bar>
      \<le> \<bar>binary64 (Th * c) - Th * c\<bar> + (\<bar>Th * c - T * c\<bar> + \<bar>T * c - T * (108 / 100)\<bar>)"
    by simp
  also have "\<dots> \<le> 1 / 10 ^ 7 + (11 / 100000 + 1 / 10 ^ 8)"
    using r d1 d2 by (intro add_mono)
  also have "\<dots> < 1 / 5000"
    by simp
  finally show ?thesis
    unfolding Th_def T_def c_def tax_factor .
qed

text \<open>A request whose terms are all zero leaves \<^verbatim>\<open>total\<close> at zero.\<close>

lemma gross_0_iff:
  "gross rows its = 0 \<longleftrightarrow> (\<forall>it \<in> set its. unit_price rows (productId it) * quantity it = 0)"
proof (induction its)
  case Nil
  then show ?case by (simp add: gross_def)
next
  case (Cons it its)
  have "0 \<le> \<bar>unit_price rows (productId it) * quantity it\<bar>"
    by simp
  with gross_nonneg [of rows its]
  have "\<bar>unit_price rows (productId it) * quantity it\<bar> + gross rows its = 0 \<longleftrightarrow>
      \<bar>unit_price rows (productId it) * quantity it\<bar> = 0 \<and> gross rows its = 0"
    by linarith
  then show ?case
    unfolding gross_Cons using Cons by simp
qed

lemma accumulate_0:
  "\<forall>it \<in> set its. unit_price rows (productId it) * quantity it = 0 \<Longrightarrow>
   accumulate rows 0 its = 0 \<and> subtotal rows its = 0"
proof (induction its)
  case Nil
  then show ?case by (simp add: accumulate_def subtotal_def)
next
  case (Cons it its)
  then have "unit_price rows (productId it) = 0 \<or> quantity it = 0"
    by simp
  then have "binary64 (binary64 (unit_price rows (productId it)) * quantity it) = 0"
    by auto
  then show ?case
    unfolding accumulate_Cons subtotal_Cons using Cons by simp
qed

section \<open>The total of a placed order\<close>

text \<open>
  C3. The total that a placed order returns is \<^verbatim>\<open>toFixed(2)\<close> of the double that the handler
  computes: the prices of the rows, read as doubles, times the quantities, added up in the
  order of the items, and times the double \<^verbatim>\<open>1 + taxRate\<close>. The items returned carry those
  prices and the quantities of the request. When the prices of the store are whole
  hundredths, the request has at most 1000 items, the magnitudes of unit price times
  quantity sum to at most \<open>10\<^sup>8\<close> and the sum of unit price times quantity is not zero
  (or every term of it is zero), the rounding of the doubles does not show: the total is
  the text of that sum times 1.08, a two-decimal string that reads back as the sum times
  1.08 rounded to two decimals.
\<close>

theorem order_total_with_tax:
  assumes "post_orders e db (Array its) = (res, db')"
    and "status res = 200"
  shows "\<exists>oid code lines.
           json res =
             Order_created oid
               (toFixed2 (binary64 (accumulate (products db) 0 its * binary64 (1 + taxRate))))
               code lines \<and>
           map ol_quantity lines = map quantity its \<and>
           map ol_price lines = map (\<lambda>it. binary64 (unit_price (products db) (productId it))) its \<and>
           ((\<forall>p \<in> set (products db). two_decimals (p_price p)) \<and>
            length its \<le> 1000 \<and>
            gross (products db) its \<le> 10 ^ 8 \<and>
            (subtotal (products db) its = 0 \<longrightarrow> gross (products db) its = 0) \<longrightarrow>
              json res =
                Order_created oid (toFixed2 (subtotal (products db) its * (108 / 100))) code lines \<and>
              (\<exists>s. toFixed2 (subtotal (products db) its * (108 / 100)) = Text s \<and>
                   read_2dp s = Some (round_2dp (subtotal (products db) its * (108 / 100)))))"
proof -
  from assms obtain its' s where
    its': "Array its = Array its'"
    and loop: "for_items e its' (initial db) = Inr s"
    and res: "res = \<lparr>status = 200,
       json = Order_created (gen_random_uuid e 0)
                (toFixed2 (binary64 (total_acc s * binary64 (1 + taxRate))))
                (pickupCode e) (orderItems s)\<rparr>"
    by (rule post_orders_200)
  from its' have [simp]: "its' = its" by simp
  let ?T = "subtotal (products db) its"
  let ?X = "binary64 (accumulate (products db) 0 its * binary64 (1 + taxRate))"
  have t: "total_acc s = accumulate (products db) 0 its"
    using for_items_total [OF loop] by simp
  have l: "map ol_quantity (orderItems s) = map quantity its"
    "map ol_price (orderItems s) = map (\<lambda>it. binary64 (unit_price (products db) (productId it))) its"
    using for_items_orderItems [OF loop] by simp_all
  have j: "json res = Order_created (gen_random_uuid e 0) (toFixed2 ?X) (pickupCode e) (orderItems s)"
    using res t by simp
  have int: "\<forall>it \<in> set its. is_integer (quantity it)"
    using for_items_integer [OF loop] by simp
  have c: "toFixed2 ?X = toFixed2 (?T * (108 / 100)) \<and>
      (\<exists>s. toFixed2 (?T * (108 / 100)) = Text s \<and> read_2dp s = Some (round_2dp (?T * (108 / 100))))"
    if prices: "\<forall>p \<in> set (products db). two_decimals (p_price p)"
      and n: "length its \<le> 1000"
      and g: "gross (products db) its \<le> 10 ^ 8"
      and z: "?T = 0 \<longrightarrow> gross (products db) its = 0"
  proof -
    have "\<bar>?T\<bar> \<le> 10 ^ 8"
      using subtotal_le_gross [of "products db" its] g by linarith
    then have b: "\<bar>?T * (108 / 100)\<bar> \<le> 10 ^ 8 * (108 / 100)"
      by (simp add: abs_mult)
    then have "\<bar>?T * (108 / 100)\<bar> < 10 ^ 21"
      by simp
    then have r: "\<exists>s. toFixed2 (?T * (108 / 100)) = Text s \<and>
        read_2dp s = Some (round_2dp (?T * (108 / 100)))"
      by (rule read_2dp_toFixed2)
    have "toFixed2 ?X = toFixed2 (?T * (108 / 100))"
    proof (cases "?T = 0")
      case True
      with z have "\<forall>it \<in> set its. unit_price (products db) (productId it) * quantity it = 0"
        by (simp add: gross_0_iff)
      then have "accumulate (products db) 0 its = 0"
        by (simp add: accumulate_0)
      then show ?thesis
        using True by simp
    next
      case False
      have "is_integer (?T * 100)"
        using prices int by (rule subtotal_hundredths)
      moreover note False
      moreover have "\<bar>?T * (108 / 100)\<bar> \<le> 10 ^ 21 - 1"
        using b by simp
      moreover have "\<bar>?X - ?T * (108 / 100)\<bar> < 1 / 5000"
        using prices int n g False by (rule total_error)
      ultimately show ?thesis
        by (rule toFixed2_stable)
    qed
    then show ?thesis
      using r by (rule conjI)
  qed
  from j l c show ?thesis
    by (intro exI [of _ "gen_random_uuid e 0"] exI [of _ "pickupCode e"] exI [of _ "orderItems s"])
      simp
qed

lemma binary64_numeral: "(numeral n :: int) < 2 ^ 53 \<Longrightarrow> binary64 (numeral n) = numeral n"
  using binary64_of_int [of "numeral n"] by simp

lemma pickupCode_quiet: "pickupCode quiet = ''550000''"
  by (simp add: pickupCode_def binary64_numeral int_toString_def decimal_large decimal_small
      digit_char_def)

lemma toFixed2_example: "toFixed2 (162 / 25) = Text ''6.48''"
  by code_simp

lemma orange_simps [simp]:
  "p_id orange = 9" "p_name orange = ''Orange''" "p_price orange = 17 / 20" "p_stock orange = 100"
  "p_barcode orange = Some ''5555666677''"
  by (simp_all add: orange_def)

lemma fruit_simps [simp]:
  "products fruit = [orange]" "orders fruit = []" "order_items fruit = []"
  by (simp_all add: fruit_def)

text \<open>The doubles that the request for oranges runs through.\<close>

lemma orange_doubles:
  "binary64 (17 / 20) = 7656119366529843 / 9007199254740992"
  "binary64 (22968358099589529 / 9007199254740992) = 2871044762448691 / 1125899906842624"
  "binary64 (2871044762448691 / 1125899906842624) = 2871044762448691 / 1125899906842624"
  "binary64 (- (7656119366529843 / 9007199254740992)) = - (7656119366529843 / 9007199254740992)"
  "binary64 (15312238733059685 / 9007199254740992) = 3828059683264921 / 2251799813685248"
  "binary64 (7656119366529841 / 9007199254740992) = 7656119366529841 / 9007199254740992"
  "binary64 (- (1 / 4503599627370496)) = - (1 / 4503599627370496)"
  "binary64 (- (607985949695017 / 2535301200456458802993406410752)) =
     - (607985949695017 / 2535301200456458802993406410752)"
  subgoal by (subst binary64_eval [where e = "- 1"]) (simp_all, code_simp)
  subgoal by (subst binary64_eval [where e = 1]) (simp_all, code_simp)
  subgoal by (subst binary64_eval [where e = 1]) (simp_all, code_simp)
  subgoal by (subst binary64_eval [where e = "- 1"]) (simp_all, code_simp)
  subgoal by (subst binary64_eval [where e = 0]) (simp_all, code_simp)
  subgoal by (subst binary64_eval [where e = "- 1"]) (simp_all, code_simp)
  subgoal by (subst binary64_eval [where e = "- 52"]) (simp_all, code_simp)
  subgoal by (subst binary64_eval [where e = "- 52"]) (simp_all, code_simp)
  done

lemma is_integer_minus_1: "is_integer (- 1)"
  by (simp add: is_integer_def)

lemma floor_minus_1: "\<lfloor>- 1 :: rat\<rfloor> = - 1"
  by (rule floor_unique) simp_all

lemma toFixed2_tiny:
  "toFixed2 (- (607985949695017 / 2535301200456458802993406410752)) = Text ''-0.00''"
  by code_simp

text \<open>
  The claim as written fails. Three oranges at 0.85 are taken and returned one by one: the
  sum of unit price times quantity is zero, and zero times 1.08 has the text \<^verbatim>\<open>0.00\<close>. The
  order is placed and returns the total \<^verbatim>\<open>-0.00\<close>: the double nearest to 0.85 times 3 is
  rounded down by more than the three subtractions make up for, which leaves \<^verbatim>\<open>total\<close> at
  \<open>-2\<^sup>-\<^sup>5\<^sup>2\<close>. The prices are whole hundredths, and the four magnitudes sum to 5.10.
\<close>

theorem zero_sum_negative_total:
  "fst (post_orders quiet fruit (Array take_and_return)) =
     \<lparr>status = 200,
      json = Order_created 1000 (Text ''-0.00'') ''550000''
        [\<lparr>ol_productId = 9, ol_quantity = 3, ol_name = ''Orange'',
           ol_price = 7656119366529843 / 9007199254740992\<rparr>,
         \<lparr>ol_productId = 9, ol_quantity = - 1, ol_name = ''Orange'',
           ol_price = 7656119366529843 / 9007199254740992\<rparr>,
         \<lparr>ol_productId = 9, ol_quantity = - 1, ol_name = ''Orange'',
           ol_price = 7656119366529843 / 9007199254740992\<rparr>,
         \<lparr>ol_productId = 9, ol_quantity = - 1, ol_name = ''Orange'',
           ol_price = 7656119366529843 / 9007199254740992\<rparr>]\<rparr> \<and>
   products (snd (post_orders quiet fruit (Array take_and_return))) = [orange] \<and>
   subtotal (products fruit) take_and_return = 0 \<and>
   toFixed2 (subtotal (products fruit) take_and_return * (108 / 100)) = Text ''0.00'' \<and>
   list_all (\<lambda>p. two_decimals (p_price p)) (products fruit) \<and>
   length take_and_return \<le> 1000 \<and>
   gross (products fruit) take_and_return = 51 / 10"
proof -
  let ?R = "post_orders quiet fruit (Array take_and_return)"
  have s: "subtotal (products fruit) take_and_return = 0"
    by (simp add: subtotal_def take_and_return_def unit_price_def first_row_def)
  have z: "toFixed2 (0 * (108 / 100)) = Text ''0.00''"
    by code_simp
  have g: "gross (products fruit) take_and_return = 51 / 10"
    by (simp add: gross_def take_and_return_def unit_price_def first_row_def)
  have c: "list_all (\<lambda>p. two_decimals (p_price p)) (products fruit)"
    by (simp add: two_decimals_def is_integer_def)
  have n: "length take_and_return \<le> 1000"
    by (simp add: take_and_return_def)
  have r: "fst ?R =
     \<lparr>status = 200,
      json = Order_created 1000 (Text ''-0.00'') ''550000''
        [\<lparr>ol_productId = 9, ol_quantity = 3, ol_name = ''Orange'',
           ol_price = 7656119366529843 / 9007199254740992\<rparr>,
         \<lparr>ol_productId = 9, ol_quantity = - 1, ol_name = ''Orange'',
           ol_price = 7656119366529843 / 9007199254740992\<rparr>,
         \<lparr>ol_productId = 9, ol_quantity = - 1, ol_name = ''Orange'',
           ol_price = 7656119366529843 / 9007199254740992\<rparr>,
         \<lparr>ol_productId = 9, ol_quantity = - 1, ol_name = ''Orange'',
           ol_price = 7656119366529843 / 9007199254740992\<rparr>]\<rparr>"
    by (simp add: eval_order take_and_return_def Let_def pickupCode_quiet orange_doubles
        tax_factor toFixed2_tiny is_integer_minus_1)
  have p: "products (snd ?R) = [orange]"
    by (simp add: eval_order take_and_return_def Let_def orange_def is_integer_minus_1
        floor_minus_1)
  from r p s z g c n show ?thesis
    by (simp only: simp_thms)
qed

lemma milk_total:
  "binary64 (accumulate (products shop) 0 [\<lparr>productId = 1, quantity = 2\<rparr>] * binary64 (1 + taxRate)) =
     1823957849085051 / 281474976710656"
proof -
  have "accumulate (products shop) 0 [\<lparr>productId = 1, quantity = 2\<rparr>] = 6"
    by (simp add: accumulate_def unit_price_def first_row_def binary64_numeral)
  moreover have "binary64 (1823957849085051 / 281474976710656) = 1823957849085051 / 281474976710656"
    by (subst binary64_eval [where e = 2]) (simp_all, code_simp)
  ultimately show ?thesis
    by (simp add: tax_factor)
qed

theorem order_total_with_tax_witness:
  "fst (post_orders quiet shop (Array [\<lparr>productId = 1, quantity = 2\<rparr>])) =
     \<lparr>status = 200,
      json = Order_created 1000 (Text ''6.48'') ''550000''
        [\<lparr>ol_productId = 1, ol_quantity = 2, ol_name = ''Milk'', ol_price = 3\<rparr>]\<rparr> \<and>
   products (snd (post_orders quiet shop (Array [\<lparr>productId = 1, quantity = 2\<rparr>]))) =
     [milk\<lparr>p_stock := 48\<rparr>, bread] \<and>
   list_all (\<lambda>p. two_decimals (p_price p)) (products shop) \<and>
   length [\<lparr>productId = 1, quantity = 2\<rparr>] \<le> 1000 \<and>
   gross (products shop) [\<lparr>productId = 1, quantity = 2\<rparr>] = 6 \<and>
   subtotal (products shop) [\<lparr>productId = 1, quantity = 2\<rparr>] = 6 \<and>
   binary64 (accumulate (products shop) 0 [\<lparr>productId = 1, quantity = 2\<rparr>] * binary64 (1 + taxRate)) =
     1823957849085051 / 281474976710656 \<and>
   toFixed2 (1823957849085051 / 281474976710656) = Text ''6.48'' \<and>
   read_2dp ''6.48'' = Some (162 / 25)"
proof -
  let ?its = "[\<lparr>productId = 1, quantity = 2\<rparr>]"
  let ?R = "post_orders quiet shop (Array ?its)"
  let ?lines = "[\<lparr>ol_productId = 1, ol_quantity = 2, ol_name = ''Milk'', ol_price = 3\<rparr>]"
  have ev: "\<exists>t. fst ?R = \<lparr>status = 200, json = Order_created 1000 t ''550000'' ?lines\<rparr>"
    by (simp add: eval_order Let_def pickupCode_quiet binary64_numeral)
  have p: "products (snd ?R) = [milk\<lparr>p_stock := 48\<rparr>, bread]"
    by (simp add: eval_order Let_def)
  have s: "subtotal (products shop) ?its = 6"
    by (simp add: subtotal_def unit_price_def first_row_def)
  have g: "gross (products shop) ?its = 6"
    by (simp add: gross_def unit_price_def first_row_def)
  have c: "\<forall>p \<in> set (products shop). two_decimals (p_price p)"
    by (simp add: two_decimals_def)
  have n: "length ?its \<le> 1000"
    by simp
  have ok: "status (fst ?R) = 200"
    using ev by auto
  have eq: "?R = (fst ?R, snd ?R)"
    by simp
  from order_total_with_tax [OF eq ok] obtain oid code lines where
    j: "json (fst ?R) =
          Order_created oid
            (toFixed2 (binary64 (accumulate (products shop) 0 ?its * binary64 (1 + taxRate))))
            code lines"
    and h: "(\<forall>p \<in> set (products shop). two_decimals (p_price p)) \<and>
        length ?its \<le> 1000 \<and> gross (products shop) ?its \<le> 10 ^ 8 \<and>
        (subtotal (products shop) ?its = 0 \<longrightarrow> gross (products shop) ?its = 0) \<longrightarrow>
          json (fst ?R) =
            Order_created oid (toFixed2 (subtotal (products shop) ?its * (108 / 100))) code lines \<and>
          (\<exists>x. toFixed2 (subtotal (products shop) ?its * (108 / 100)) = Text x \<and>
               read_2dp x = Some (round_2dp (subtotal (products shop) ?its * (108 / 100))))"
    by blast
  have "gross (products shop) ?its \<le> 10 ^ 8"
    unfolding g by simp
  moreover have "subtotal (products shop) ?its = 0 \<longrightarrow> gross (products shop) ?its = 0"
    unfolding s by simp
  ultimately have
    j': "json (fst ?R) =
          Order_created oid (toFixed2 (subtotal (products shop) ?its * (108 / 100))) code lines"
    and r': "\<exists>x. toFixed2 (subtotal (products shop) ?its * (108 / 100)) = Text x \<and>
               read_2dp x = Some (round_2dp (subtotal (products shop) ?its * (108 / 100)))"
    using h c n by blast+
  have v: "subtotal (products shop) ?its * (108 / 100) = 162 / 25"
    unfolding s by simp
  from j' have "json (fst ?R) = Order_created oid (Text ''6.48'') code lines"
    unfolding v toFixed2_example .
  with ev have r: "fst ?R = \<lparr>status = 200, json = Order_created 1000 (Text ''6.48'') ''550000'' ?lines\<rparr>"
    by auto
  from j j' have "toFixed2 (binary64 (accumulate (products shop) 0 ?its * binary64 (1 + taxRate))) =
      toFixed2 (subtotal (products shop) ?its * (108 / 100))"
    by simp
  then have t: "toFixed2 (1823957849085051 / 281474976710656) = Text ''6.48''"
    unfolding milk_total v toFixed2_example .
  from r' have "read_2dp ''6.48'' = Some (round_2dp (162 / 25))"
    unfolding v toFixed2_example by simp
  moreover have "round_2dp (162 / 25) = 162 / 25"
    by code_simp
  ultimately have rd: "read_2dp ''6.48'' = Some (162 / 25)"
    by simp
  have "list_all (\<lambda>p. two_decimals (p_price p)) (products shop)"
    using c by (simp only: list_all_iff)
  with r p n g s milk_total t rd show ?thesis
    by (simp only: simp_thms)
qed

section \<open>The keys of the product table\<close>

text \<open>
  The properties above take the primary key and the \<^verbatim>\<open>UNIQUE\<close> constraints of the product
  table as given. Placing an order keeps them: it changes no id, name or barcode.
\<close>

lemma decrement_all_keys:
  "map p_id (decrement_all its rows) = map p_id rows \<and>
   map p_name (decrement_all its rows) = map p_name rows \<and>
   map p_barcode (decrement_all its rows) = map p_barcode rows"
  by (induction its arbitrary: rows) (simp_all add: comp_def)

lemma post_orders_keys:
  assumes "post_orders e db items_in = (res, db')"
  shows "map p_id (products db') = map p_id (products db) \<and>
         map p_name (products db') = map p_name (products db) \<and>
         map p_barcode (products db') = map p_barcode (products db)"
proof (cases "status res = 200")
  case True
  from assms True obtain its where "products db' = decrement_all its (products db)"
    by (rule post_orders_200_store)
  then show ?thesis by (simp add: decrement_all_keys)
next
  case False
  then show ?thesis using post_orders_not_200 [OF assms] by simp
qed

end
